theory Spec2Isabelle
  imports Complex_Main
begin

text \<open>
  The playback machine of the component \<open>HistoricalCinema3D\<close>: the scene provider
  \<open>generateScenesLocally\<close>, \<open>startShow\<close>, the navigation controls, the autoplay effect with
  its interval, the narration helper \<open>speak\<close> and the camera rig. State cells become the
  fields of a record, handlers become functions on that record, and what reaches the
  browser (speech synthesis, alerts) is appended to a trace.
\<close>

section \<open>JavaScript strings\<close>

text \<open>
  A JavaScript string is a sequence of UTF-16 code units. The model keeps the code units
  as natural numbers; \<open>js\<close> turns an ASCII literal of the source into its code units.
\<close>

type_synonym jsstring = "nat list"

definition js :: "string \<Rightarrow> jsstring" where
  "js s = map of_char s"

text \<open>
  \<open>String.prototype.trim\<close> removes the ECMAScript WhiteSpace and LineTerminator code
  points from both ends: TAB, LF, VT, FF, CR, SP, NBSP, U+1680, U+2000 to U+200A, U+2028,
  U+2029, U+202F, U+205F, U+3000 and U+FEFF.
\<close>

definition isWhiteSpace :: "nat \<Rightarrow> bool" where
  "isWhiteSpace c =
     (c = 9 \<or> c = 10 \<or> c = 11 \<or> c = 12 \<or> c = 13 \<or> c = 32 \<or> c = 160 \<or> c = 5760
      \<or> (8192 \<le> c \<and> c \<le> 8202) \<or> c = 8232 \<or> c = 8233 \<or> c = 8239 \<or> c = 8287
      \<or> c = 12288 \<or> c = 65279)"

definition trim :: "jsstring \<Rightarrow> jsstring" where
  "trim s = rev (dropWhile isWhiteSpace (rev (dropWhile isWhiteSpace s)))"

text \<open>\<open>String.prototype.includes\<close>: the needle occurs as a contiguous run of code units.\<close>

fun startsWith :: "jsstring \<Rightarrow> jsstring \<Rightarrow> bool" where
  "startsWith s [] = True"
| "startsWith [] (p # ps) = False"
| "startsWith (c # cs) (p # ps) = (c = p \<and> startsWith cs ps)"

fun includes_js :: "jsstring \<Rightarrow> jsstring \<Rightarrow> bool" where
  "includes_js [] needle = (needle = [])"
| "includes_js (c # cs) needle = (startsWith (c # cs) needle \<or> includes_js cs needle)"

text \<open>
  \<open>String.prototype.toLowerCase\<close> follows the Unicode case mappings, a table of the
  platform and not of this repository: the functions that call it take it as the
  parameter \<open>lower\<close>. \<open>toLowerCase_ascii\<close> is its restriction to ASCII letters, used to
  run the model on ASCII input.
\<close>

definition toLowerCase_ascii :: "jsstring \<Rightarrow> jsstring" where
  "toLowerCase_ascii s = map (\<lambda>c. if 65 \<le> c \<and> c \<le> 90 then c + 32 else c) s"

section \<open>Scenes\<close>

text \<open>
  \<open>EnvName\<close> and \<open>CameraStyle\<close> are unions of string literals. The types are erased
  when the program runs, so a scene holds plain strings; the two lists below are the
  members the declarations enumerate.
\<close>

definition EnvName_values :: "jsstring list" where
  "EnvName_values =
     [js ''space'', js ''desert'', js ''sea'', js ''forest'', js ''city'', js ''tundra'',
      js ''interior'', js ''mountain'', js ''ceremonial'', js ''battlefield'']"

definition CameraStyle_values :: "jsstring list" where
  "CameraStyle_values =
     [js ''dolly-in'', js ''crane-up'', js ''orbit-slow'', js ''handheld'',
      js ''locked-off'', js ''push-pull'']"

record Scene =
  title :: jsstring
  timePeriod :: jsstring
  location :: jsstring
  oneLine :: jsstring
  narration :: jsstring
  visualKeywords :: "jsstring list"
  palette :: "jsstring list"
  environment :: jsstring
  cameraStyle :: jsstring

datatype Locale = en_US | es_ES

text \<open>The three suggested events of the table \<open>T\<close>, in the order the buttons show them.\<close>

fun suggestedEvents :: "Locale \<Rightarrow> jsstring list" where
  "suggestedEvents en_US = [js ''Moon Landing'', js ''Ancient Egypt'', js ''World War II'']"
| "suggestedEvents es_ES = [js ''Alunizaje'', js ''Antiguo Egipto'', js ''Segunda Guerra Mundial'']"

subsection \<open>The local scene provider\<close>

definition moon_scenes :: "Scene list" where
  "moon_scenes =
     [\<lparr>title = js ''Trans-Earth Injection'', timePeriod = js ''July 1969'',
       location = js ''Low lunar orbit'',
       oneLine = js ''Command Module arcs behind a silent crescent.'',
       narration = js ''The spacecraft glides over a silver limb as starlight needles the void. Radio static crackles like distant surf.'',
       visualKeywords = [js ''crescent moon'', js ''command module'', js ''starfield'', js ''dark space''],
       palette = [js ''#0b1220'', js ''#d0d6e8'', js ''#8aa2ff'', js ''#ffffff''],
       environment = js ''space'', cameraStyle = js ''orbit-slow''\<rparr>,
      \<lparr>title = js ''The Eagle Descends'', timePeriod = js ''July 20, 1969'',
       location = js ''Mare Tranquillitatis'',
       oneLine = js ''LM kicks up plumes as it hovers.'',
       narration = js ''Dust blooms like slow-moving fog. Engines hiss against the emptiness, and the surface crawls closer.'',
       visualKeywords = [js ''lunar module'', js ''dust plume'', js ''surface craters'', js ''harsh light''],
       palette = [js ''#0b1220'', js ''#c2b280'', js ''#e0e0e0'', js ''#ffffff''],
       environment = js ''space'', cameraStyle = js ''dolly-in''\<rparr>,
      \<lparr>title = js ''Footprints'', timePeriod = js ''July 20, 1969'',
       location = js ''Tranquility Base'',
       oneLine = js ''Boot prints stitch the regolith.'',
       narration = js ''A boot presses down and the gray soil keeps its memory. The flag stiffens and winks in the sun.'',
       visualKeywords = [js ''footprints'', js ''American flag'', js ''lander legs'', js ''sun glare''],
       palette = [js ''#1a1f2b'', js ''#9a9a9a'', js ''#d9d9d9'', js ''#ff2e2e''],
       environment = js ''space'', cameraStyle = js ''locked-off''\<rparr>]"

definition egypt_scenes :: "Scene list" where
  "egypt_scenes =
     [\<lparr>title = js ''Rising of the Pyramids'', timePeriod = js ''c. 2560 BCE'',
       location = js ''Giza Plateau'',
       oneLine = js ''Cut stones glow under copper sun.'',
       narration = js ''Sand breathes heat. Ropes sing as blocks climb ramps; a thousand hands move in practiced rhythm.'',
       visualKeywords = [js ''pyramid'', js ''ramp'', js ''workers'', js ''sand haze''],
       palette = [js ''#a26a2b'', js ''#f2d3a2'', js ''#6e4b1f'', js ''#ffffff''],
       environment = js ''desert'', cameraStyle = js ''crane-up''\<rparr>,
      \<lparr>title = js ''Torchlit Corridor'', timePeriod = js ''Old Kingdom'',
       location = js ''Inner passage'',
       oneLine = js ''Hieroglyphs flicker alive.'',
       narration = js ''Flame halos dance along carved gods. The air tastes like stone and resin.'',
       visualKeywords = [js ''torch'', js ''hieroglyphs'', js ''narrow hallway'', js ''smoke''],
       palette = [js ''#140c06'', js ''#f7a531'', js ''#8c5a12'', js ''#e7e2d1''],
       environment = js ''interior'', cameraStyle = js ''dolly-in''\<rparr>,
      \<lparr>title = js ''Solar Barge'', timePeriod = js ''Mythic time'',
       location = js ''Nile mirage'',
       oneLine = js ''A royal barge slides across gold.'',
       narration = js ''River murmurs under reeds. Drums mark a steady heartbeat as sunlight scatters on ripples.'',
       visualKeywords = [js ''barge'', js ''reeds'', js ''sun glitter'', js ''oars''],
       palette = [js ''#184c45'', js ''#efe3b0'', js ''#b8882d'', js ''#0b132b''],
       environment = js ''sea'', cameraStyle = js ''orbit-slow''\<rparr>]"

definition wwii_scenes :: "Scene list" where
  "wwii_scenes =
     [\<lparr>title = js ''Storming the Beach'', timePeriod = js ''June 6, 1944'',
       location = js ''Normandy'',
       oneLine = js ''Gray surf meets steel and grit.'',
       narration = js ''Engines roar, then sudden shallows. The ramp slams; boots churn water and sand under a sky of smoke.'',
       visualKeywords = [js ''landing craft'', js ''barriers'', js ''smoke'', js ''waves''],
       palette = [js ''#2e3a45'', js ''#9aa4ad'', js ''#c9d1d5'', js ''#2b2b2b''],
       environment = js ''sea'', cameraStyle = js ''handheld''\<rparr>,
      \<lparr>title = js ''City in Blackout'', timePeriod = js ''1940'',
       location = js ''London'',
       oneLine = js ''Sirens over dark rooftops.'',
       narration = js ''Windows go blind as the sky pulses with searchlights. The ground hums with distant thunder.'',
       visualKeywords = [js ''searchlights'', js ''rooftops'', js ''sirens'', js ''sandbags''],
       palette = [js ''#0b0f1a'', js ''#e5e7eb'', js ''#6b7280'', js ''#111827''],
       environment = js ''city'', cameraStyle = js ''orbit-slow''\<rparr>,
      \<lparr>title = js ''The Signatures'', timePeriod = js ''1945'',
       location = js ''Aboard the USS Missouri'',
       oneLine = js ''Pens press history into paper.'',
       narration = js ''Coats rustle, cameras click, and the war finally exhales. Ink dries like a sunrise.'',
       visualKeywords = [js ''table'', js ''documents'', js ''medals'', js ''flags''],
       palette = [js ''#1f2937'', js ''#9ca3af'', js ''#d1d5db'', js ''#e5e7eb''],
       environment = js ''interior'', cameraStyle = js ''locked-off''\<rparr>]"

text \<open>The fallback scenes splice the event name, as passed in, into the three titles.\<close>

definition generic_scenes :: "jsstring \<Rightarrow> Scene list" where
  "generic_scenes eventName =
     [\<lparr>title = js ''Prologue of '' @ eventName, timePeriod = [], location = [],
       oneLine = js ''A hush before history moves.'',
       narration = js ''Crowds gather at the edge of change. Air tightens, breaths sync, and the first step arrives.'',
       visualKeywords = [js ''crowd'', js ''banners'', js ''wide plaza'', js ''dawn light''],
       palette = [js ''#0a0a0a'', js ''#dddddd'', js ''#9c27b0'', js ''#00bcd4''],
       environment = js ''city'', cameraStyle = js ''dolly-in''\<rparr>,
      \<lparr>title = js ''Turning Point of '' @ eventName, timePeriod = [], location = [],
       oneLine = js ''Momentum finds its voice.'',
       narration = js ''The world leans forward; wheels, hooves, or engines catch and cascade into change.'',
       visualKeywords = [js ''movement'', js ''flags'', js ''smoke'', js ''structures''],
       palette = [js ''#101827'', js ''#fbbf24'', js ''#60a5fa'', js ''#fca5a5''],
       environment = js ''battlefield'', cameraStyle = js ''handheld''\<rparr>,
      \<lparr>title = js ''Epilogue of '' @ eventName, timePeriod = [], location = [],
       oneLine = js ''What remains becomes memory.'',
       narration = js ''Footsteps fade; the air is different now. The scene keeps an imprint for those who return.'',
       visualKeywords = [js ''empty street'', js ''paper debris'', js ''sunset'', js ''shadows''],
       palette = [js ''#111827'', js ''#e5e7eb'', js ''#f59e0b'', js ''#ef4444''],
       environment = js ''city'', cameraStyle = js ''orbit-slow''\<rparr>]"

text \<open>
  \<open>generateScenesLocally\<close>: the event name is trimmed and lower-cased, then matched
  against the keywords in the order of the source. (\<open>eventName || ""\<close> is the identity on
  strings.)
\<close>

definition generateScenesLocally :: "(jsstring \<Rightarrow> jsstring) \<Rightarrow> jsstring \<Rightarrow> Scene list" where
  "generateScenesLocally lower eventName =
     (let e = lower (trim eventName) in
      if includes_js e (js ''moon'') \<or> includes_js e (js ''apollo'') then moon_scenes
      else if includes_js e (js ''egypt'') then egypt_scenes
      else if includes_js e (js ''world war'') \<or> includes_js e (js ''wwii'') \<or> includes_js e (js ''ww2'')
        then wwii_scenes
      else generic_scenes eventName)"

section \<open>The narration sink and the other effects\<close>

text \<open>
  What the component does to the outside is kept as a trace: calls of the scene provider,
  \<open>speechSynthesis.cancel()\<close>, \<open>speechSynthesis.speak(u)\<close> with the text and language
  of the utterance (rate and pitch are the constant 1), \<open>console.error\<close> and \<open>alert\<close>.
\<close>

datatype effect =
    ProviderCall jsstring
  | SinkCancel
  | SinkSpeak jsstring Locale
  | ConsoleError
  | Alert jsstring

text \<open>
  \<open>speak(text, enabled, lang)\<close>. The flag \<open>synth\<close> says that \<open>window.speechSynthesis\<close>
  exists. An absent text (\<open>undefined\<close>) is spoken as the empty string. The sink is taken
  not to throw, so the empty \<open>catch\<close> has no branch here.
\<close>

definition speak :: "bool \<Rightarrow> jsstring option \<Rightarrow> bool \<Rightarrow> Locale \<Rightarrow> effect list" where
  "speak synth text enabled lang =
     (if \<not> enabled \<or> \<not> synth then []
      else [SinkCancel, SinkSpeak (case text of None \<Rightarrow> [] | Some t \<Rightarrow> t) lang])"

text \<open>Reading \<open>xs[i]\<close>: \<open>undefined\<close> outside the array.\<close>

definition at_index :: "'a list \<Rightarrow> int \<Rightarrow> 'a option" where
  "at_index xs i = (if 0 \<le> i \<and> i < int (length xs) then Some (xs ! nat i) else None)"

text \<open>
  The remainder operator \<open>%\<close> on integer-valued numbers: the magnitude is that of the
  Euclidean remainder and the sign is the sign of the dividend. A zero divisor gives
  \<open>NaN\<close> in JavaScript; every use below sits behind a test that the scene list is not
  empty, and the properties proved carry that test.
\<close>

definition js_rem :: "int \<Rightarrow> int \<Rightarrow> int" where
  "js_rem a b = (if a < 0 then - ((- a) mod \<bar>b\<bar>) else a mod \<bar>b\<bar>)"

section \<open>The playback state\<close>

text \<open>
  An armed \<open>setInterval\<close>: the time left until it fires next, and the values of
  \<open>scenes\<close>, \<open>narration\<close> and \<open>locale\<close> its callback closed over when the effect ran.
\<close>

record interval =
  remaining :: nat
  cb_scenes :: "Scene list"
  cb_narration :: bool
  cb_locale :: Locale

text \<open>
  The \<open>useState\<close> cells of \<open>HistoricalCinema3D\<close> (\<open>locale\<close> and \<open>narration\<close> are renamed
  \<open>localeTag\<close> and \<open>narrationOn\<close>), the identity of the current \<open>scenes\<close> array
  (\<open>scenesId\<close>, a fresh number for every array installed), the armed interval and the
  trace of effects.
\<close>

record PlaybackState =
  localeTag :: Locale
  eventName :: jsstring
  scenes :: "Scene list"
  scenesId :: nat
  active :: int
  playing :: bool
  autoplay :: bool
  narrationOn :: bool
  quality :: nat
  loading :: bool
  timer :: "interval option"
  effects :: "effect list"

definition initialState :: PlaybackState where
  "initialState =
     \<lparr>localeTag = en_US, eventName = [], scenes = [], scenesId = 0, active = 0,
      playing = False, autoplay = True, narrationOn = True, quality = 1, loading = False,
      timer = None, effects = []\<rparr>"

subsection \<open>startShow\<close>

text \<open>
  The source calls \<open>generateScenesLocally\<close> inside the \<open>try\<close>; its closing comment names
  that call as the place where a backend is plugged in. The model takes the provider as
  the parameter \<open>provide\<close>; \<open>None\<close> is a provider that throws, which the \<open>catch\<close> turns
  into \<open>console.error\<close> and \<open>alert\<close>. The component as it is written is the instance
  \<open>localProvider\<close>: what holds for every provider holds for it, and what is said of the
  component alone is stated for \<open>localProvider\<close>. The function has no \<open>await\<close>, so it
  runs to its end within the click that calls it.
\<close>

type_synonym provider = "jsstring \<Rightarrow> Scene list option"

definition localProvider :: "(jsstring \<Rightarrow> jsstring) \<Rightarrow> provider" where
  "localProvider lower name = Some (generateScenesLocally lower name)"

definition failureMessage :: jsstring where
  "failureMessage = js ''Failed to generate scenes. Try another event.''"

text \<open>\<open>(evtName ?? eventName).trim()\<close>\<close>

definition showTopic :: "jsstring option \<Rightarrow> PlaybackState \<Rightarrow> jsstring" where
  "showTopic evtName s = trim (case evtName of None \<Rightarrow> eventName s | Some n \<Rightarrow> n)"

definition startShow :: "provider \<Rightarrow> bool \<Rightarrow> jsstring option \<Rightarrow> PlaybackState \<Rightarrow> PlaybackState" where
  "startShow provide synth evtName s =
     (let name = showTopic evtName s in
      if name = [] then s
      else
        let s1 = s\<lparr>loading := True, effects := effects s @ [ProviderCall name]\<rparr> in
        (case provide name of
           Some batch \<Rightarrow>
             s1\<lparr>scenes := batch, scenesId := Suc (scenesId s1), active := 0, playing := True,
                effects := effects s1
                  @ speak synth (map_option narration (at_index batch 0)) (narrationOn s) (localeTag s),
                loading := False\<rparr>
         | None \<Rightarrow>
             s1\<lparr>effects := effects s1 @ [ConsoleError, Alert failureMessage],
                loading := False\<rparr>))"

subsection \<open>The autoplay effect\<close>

text \<open>
  \<open>useEffect(..., [playing, autoplay, scenes, narration, locale])\<close>: after a render in
  which one of the dependencies changed (the array by identity), the cleanup clears the
  interval and the body arms a new one, unless it returns early.
\<close>

definition autoplayDeps :: "PlaybackState \<Rightarrow> bool \<times> bool \<times> nat \<times> bool \<times> Locale" where
  "autoplayDeps s = (playing s, autoplay s, scenesId s, narrationOn s, localeTag s)"

definition armInterval :: "PlaybackState \<Rightarrow> interval option" where
  "armInterval s =
     (if \<not> playing s \<or> \<not> autoplay s \<or> length (scenes s) = 0 then None
      else Some \<lparr>remaining = 6800, cb_scenes = scenes s, cb_narration = narrationOn s,
                 cb_locale = localeTag s\<rparr>)"

definition render :: "PlaybackState \<Rightarrow> PlaybackState \<Rightarrow> PlaybackState" where
  "render old new =
     (if autoplayDeps new = autoplayDeps old then new
      else new\<lparr>timer := armInterval new\<rparr>)"

text \<open>The callback of the interval: a functional update of \<open>active\<close>, speaking inside it.\<close>

definition interval_callback :: "bool \<Rightarrow> interval \<Rightarrow> PlaybackState \<Rightarrow> PlaybackState" where
  "interval_callback synth iv s =
     (let next = js_rem (active s + 1) (int (length (cb_scenes iv))) in
      s\<lparr>active := next,
        effects := effects s
          @ speak synth (map_option narration (at_index (cb_scenes iv) next)) (cb_narration iv) (cb_locale iv)\<rparr>)"

text \<open>
  Time passing by \<open>d\<close> units: an armed interval fires each time its period is up, and is
  due again a full period of 6800 later.
\<close>

function elapse :: "bool \<Rightarrow> nat \<Rightarrow> PlaybackState \<Rightarrow> PlaybackState" where
  "elapse synth d s =
     (case timer s of
        None \<Rightarrow> s
      | Some iv \<Rightarrow>
          if 0 < remaining iv \<and> remaining iv \<le> d
          then elapse synth (d - remaining iv)
                 ((interval_callback synth iv s)\<lparr>timer := Some (iv\<lparr>remaining := 6800\<rparr>)\<rparr>)
          else s\<lparr>timer := Some (iv\<lparr>remaining := remaining iv - d\<rparr>)\<rparr>)"
  by pat_completeness auto
termination
  by (relation "measure (\<lambda>(synth, d, s). d)") auto

declare elapse.simps [simp del]

subsection \<open>The controls\<close>

definition onClick_previous :: "bool \<Rightarrow> PlaybackState \<Rightarrow> PlaybackState" where
  "onClick_previous synth s =
     (let idx = js_rem (active s - 1 + int (length (scenes s))) (int (length (scenes s))) in
      s\<lparr>active := idx,
        effects := effects s
          @ speak synth (map_option narration (at_index (scenes s) idx)) (narrationOn s) (localeTag s)\<rparr>)"

definition onClick_next :: "bool \<Rightarrow> PlaybackState \<Rightarrow> PlaybackState" where
  "onClick_next synth s =
     (let idx = js_rem (active s + 1) (int (length (scenes s))) in
      s\<lparr>active := idx,
        effects := effects s
          @ speak synth (map_option narration (at_index (scenes s) idx)) (narrationOn s) (localeTag s)\<rparr>)"

text \<open>
  What the user and the clock can do. A control that is not rendered, or a slider value
  outside the range the \<open>range\<close> input allows, is no step (\<open>None\<close>): the suggestion
  buttons exist while \<open>scenes\<close> is empty, the navigation row while it is not, the seek
  slider runs from 0 to \<open>max(0, scenes.length - 1)\<close>, the quality slider from 0 to 2.
  The checkboxes and the language menu are always there. After each handler the component
  renders and the autoplay effect looks at its dependencies. \<open>Elapse d\<close> is time passing
  by \<open>d\<close> units. Unmounting, which cancels speech and clears the interval, ends the
  machine and is not an event.
\<close>

datatype event =
    InputChange jsstring
  | BeginClick
  | SuggestedClick jsstring
  | AutoplayChange bool
  | NarrationChange bool
  | QualityChange nat
  | LocaleChange Locale
  | PrevClick
  | PlayPauseClick
  | NextClick
  | SeekChange int
  | Elapse nat

fun step :: "provider \<Rightarrow> bool \<Rightarrow> event \<Rightarrow> PlaybackState \<Rightarrow> PlaybackState option" where
  "step provide synth (InputChange v) s = Some (render s (s\<lparr>eventName := v\<rparr>))"
| "step provide synth BeginClick s = Some (render s (startShow provide synth None s))"
| "step provide synth (SuggestedClick x) s =
     (if length (scenes s) = 0 \<and> x \<in> set (suggestedEvents (localeTag s))
      then Some (render s (startShow provide synth (Some x) (s\<lparr>eventName := x\<rparr>)))
      else None)"
| "step provide synth (AutoplayChange b) s = Some (render s (s\<lparr>autoplay := b\<rparr>))"
| "step provide synth (NarrationChange b) s = Some (render s (s\<lparr>narrationOn := b\<rparr>))"
| "step provide synth (QualityChange q) s =
     (if q \<le> 2 then Some (render s (s\<lparr>quality := q\<rparr>)) else None)"
| "step provide synth (LocaleChange l) s = Some (render s (s\<lparr>localeTag := l\<rparr>))"
| "step provide synth PrevClick s =
     (if length (scenes s) > 0 then Some (render s (onClick_previous synth s)) else None)"
| "step provide synth PlayPauseClick s =
     (if length (scenes s) > 0 then Some (render s (s\<lparr>playing := \<not> playing s\<rparr>)) else None)"
| "step provide synth NextClick s =
     (if length (scenes s) > 0 then Some (render s (onClick_next synth s)) else None)"
| "step provide synth (SeekChange v) s =
     (if length (scenes s) > 0 \<and> 0 \<le> v \<and> v \<le> max 0 (int (length (scenes s)) - 1)
      then Some (render s (s\<lparr>active := v\<rparr>)) else None)"
| "step provide synth (Elapse d) s = Some (elapse synth d s)"

fun run :: "provider \<Rightarrow> bool \<Rightarrow> event list \<Rightarrow> PlaybackState \<Rightarrow> PlaybackState option" where
  "run provide synth [] s = Some s"
| "run provide synth (e # es) s =
     (case step provide synth e s of None \<Rightarrow> None | Some s' \<Rightarrow> run provide synth es s')"

inductive reachable :: "provider \<Rightarrow> bool \<Rightarrow> PlaybackState \<Rightarrow> bool"
  for provide :: provider and synth :: bool where
  reachable_init: "reachable provide synth initialState"
| reachable_step:
    "reachable provide synth s \<Longrightarrow> step provide synth e s = Some s' \<Longrightarrow> reachable provide synth s'"

section \<open>The camera rig\<close>

text \<open>
  Numbers are JavaScript doubles in the source; the model computes with reals. The
  camera is its position and the orientation calls made on it, in order
  (\<open>lookAt(x, y, z)\<close> and the increment of \<open>rotation.z\<close>). The three draws of
  \<open>Math.random()\<close> that the handheld style makes per frame are the parameter \<open>rnd\<close>.
\<close>

type_synonym vec3 = "real \<times> real \<times> real"

datatype orient_op = LookAt real real real | RotateZ real

record camera =
  position :: vec3
  orientation :: "orient_op list"

text \<open>\<open>Vector3.lerp(v, alpha)\<close>: each coordinate moves by \<open>alpha\<close> of its distance to \<open>v\<close>.\<close>

fun lerp :: "vec3 \<Rightarrow> vec3 \<Rightarrow> real \<Rightarrow> vec3" where
  "lerp (x, y, z) (vx, vy, vz) alpha =
     (x + (vx - x) * alpha, y + (vy - y) * alpha, z + (vz - z) * alpha)"

text \<open>
  One frame of \<open>CameraRig\<close> at elapsed time \<open>t\<close>. The \<open>switch\<close> has the cases dolly-in,
  crane-up, handheld and locked-off; orbit-slow shares its body with \<open>default\<close>.
\<close>

definition CameraRig :: "jsstring \<Rightarrow> real \<Rightarrow> vec3 \<Rightarrow> camera \<Rightarrow> camera" where
  "CameraRig mode t rnd cam =
     (let k = 0.5 in
      if mode = js ''dolly-in'' then
        cam\<lparr>position := lerp (position cam) (0, 1.5, 4 + cos (t * 0.25) * 0.4) (k * 0.02)\<rparr>
      else if mode = js ''crane-up'' then
        cam\<lparr>position := lerp (position cam) (0.6 * sin (t * 0.3), 2 + sin (t * 0.15), 6) (k * 0.02)\<rparr>
      else if mode = js ''handheld'' then
        (case (position cam, rnd) of
           ((x, y, z), (r1, r2, r3)) \<Rightarrow>
             cam\<lparr>position := (x + (r1 - 0.5) * 0.01, y + (r2 - 0.5) * 0.01, z),
                 orientation := orientation cam @ [RotateZ ((r3 - 0.5) * 0.002)]\<rparr>)
      else if mode = js ''locked-off'' then
        cam\<lparr>position := lerp (position cam) (0, 1.6, 6) (k * 0.05),
            orientation := orientation cam @ [LookAt 0 1 0]\<rparr>
      else
        cam\<lparr>position := (sin (t * 0.1) * 6, 2, cos (t * 0.1) * 6),
            orientation := orientation cam @ [LookAt 0 1.2 0]\<rparr>)"

text \<open>
  \<open>currentScene = scenes[active]\<close>; the stage with its camera rig is mounted only when
  there is a current scene, and the rig gets that scene's \<open>cameraStyle\<close>.
\<close>

definition currentScene :: "PlaybackState \<Rightarrow> Scene option" where
  "currentScene s = at_index (scenes s) (active s)"

definition renderFrame :: "PlaybackState \<Rightarrow> real \<Rightarrow> vec3 \<Rightarrow> camera \<Rightarrow> camera" where
  "renderFrame s t rnd cam =
     (case currentScene s of None \<Rightarrow> cam | Some sc \<Rightarrow> CameraRig (cameraStyle sc) t rnd cam)"

text \<open>The camera the \<open>Canvas\<close> starts with: \<open>position: [0, 2, 8]\<close>.\<close>

definition canvasCamera :: camera where
  "canvasCamera = \<lparr>position = (0, 2, 8), orientation = []\<rparr>"

section \<open>Properties to be checked\<close>

text \<open>The index invariant: \<open>0 \<le> active < scenes.length\<close> whenever there are scenes.\<close>

definition activeInRange :: "PlaybackState \<Rightarrow> bool" where
  "activeInRange s =
     (length (scenes s) > 0 \<longrightarrow> 0 \<le> active s \<and> active s < int (length (scenes s)))"

text \<open>
  An interval is armed exactly while \<open>playing\<close>, \<open>autoplay\<close> and a non-empty \<open>scenes\<close>
  hold; its callback closed over the current values, and it is due within one period.
\<close>

definition timerCoherent :: "PlaybackState \<Rightarrow> bool" where
  "timerCoherent s =
     (case timer s of
        None \<Rightarrow> \<not> (playing s \<and> autoplay s \<and> scenes s \<noteq> [])
      | Some iv \<Rightarrow>
          playing s \<and> autoplay s \<and> scenes s \<noteq> [] \<and> cb_scenes iv = scenes s
          \<and> cb_narration iv = narrationOn s \<and> cb_locale iv = localeTag s
          \<and> 0 < remaining iv \<and> remaining iv \<le> 6800)"

text \<open>The effects a step added to the trace.\<close>

definition newEffects :: "PlaybackState \<Rightarrow> PlaybackState \<Rightarrow> effect list" where
  "newEffects s s' = drop (length (effects s)) (effects s')"

fun isSinkCall :: "effect \<Rightarrow> bool" where
  "isSinkCall SinkCancel = True"
| "isSinkCall (SinkSpeak text lang) = True"
| "isSinkCall e = False"

fun isFailure :: "effect \<Rightarrow> bool" where
  "isFailure ConsoleError = True"
| "isFailure (Alert msg) = True"
| "isFailure e = False"

text \<open>
  A fully populated scene: every text field has content, there are keywords and colours,
  and the environment and the camera style are declared members. The second predicate
  asks the same of every field but \<open>timePeriod\<close> and \<open>location\<close>.
\<close>

definition populatedButTimeAndPlace :: "Scene \<Rightarrow> bool" where
  "populatedButTimeAndPlace sc =
     (title sc \<noteq> [] \<and> oneLine sc \<noteq> [] \<and> narration sc \<noteq> [] \<and> visualKeywords sc \<noteq> []
      \<and> palette sc \<noteq> [] \<and> environment sc \<in> set EnvName_values
      \<and> cameraStyle sc \<in> set CameraStyle_values)"

definition fullyPopulated :: "Scene \<Rightarrow> bool" where
  "fullyPopulated sc =
     (populatedButTimeAndPlace sc \<and> timePeriod sc \<noteq> [] \<and> location sc \<noteq> [])"

text \<open>
  The event name, trimmed and lower-cased, contains one of the keywords that
  \<open>generateScenesLocally\<close> looks for.
\<close>

definition matchesKeyword :: "(jsstring \<Rightarrow> jsstring) \<Rightarrow> jsstring \<Rightarrow> bool" where
  "matchesKeyword lower name =
     (let e = lower (trim name) in
      includes_js e (js ''moon'') \<or> includes_js e (js ''apollo'') \<or> includes_js e (js ''egypt'')
      \<or> includes_js e (js ''world war'') \<or> includes_js e (js ''wwii'') \<or> includes_js e (js ''ww2''))"

text \<open>Two states that differ at most in \<open>quality\<close>; two events that differ at most in the
  value a quality change carries.\<close>

definition sameButQuality :: "PlaybackState \<Rightarrow> PlaybackState \<Rightarrow> bool" where
  "sameButQuality s t = (t = s\<lparr>quality := quality t\<rparr>)"

fun eventsAgree :: "event \<Rightarrow> event \<Rightarrow> bool" where
  "eventsAgree (QualityChange a) (QualityChange b) = (a = b \<or> (a \<le> 2 \<and> b \<le> 2))"
| "eventsAgree e e' = (e = e')"

text \<open>
  The dolly-in family as the specification words it: the target oscillates around the
  anchor, \<open>z = 4 + sign * 0.4 * cos (0.25 * t)\<close> with \<open>sign = 1\<close> (or \<open>-1\<close> for the mirrored
  formula), and the position approaches it by exponential smoothing with factor 0.01.
\<close>

definition spec_dollyFamily :: "real \<Rightarrow> real \<Rightarrow> camera \<Rightarrow> camera" where
  "spec_dollyFamily sign t cam =
     cam\<lparr>position := lerp (position cam) (0, 1.5, 4 + sign * 0.4 * cos (0.25 * t)) 0.01\<rparr>"

subsection \<open>Concrete states\<close>

text \<open>A running show: the event name is typed in and the chronicle begun.\<close>

definition apolloShow :: PlaybackState where
  "apolloShow =
     \<lparr>localeTag = en_US, eventName = js ''Apollo 11'', scenes = moon_scenes, scenesId = 1,
      active = 0, playing = True, autoplay = True, narrationOn = True, quality = 1,
      loading = False,
      timer = Some \<lparr>remaining = 6800, cb_scenes = moon_scenes, cb_narration = True,
                    cb_locale = en_US\<rparr>,
      effects = [ProviderCall (js ''Apollo 11''), SinkCancel,
                 SinkSpeak (narration (moon_scenes ! 0)) en_US]\<rparr>"

section \<open>startShow\<close>

lemma startShow_blank:
  "showTopic evtName s = [] \<Longrightarrow> startShow provide synth evtName s = s"
  by (simp add: startShow_def)

lemma startShow_success:
  assumes "showTopic evtName s \<noteq> []" and "provide (showTopic evtName s) = Some batch"
  shows "startShow provide synth evtName s =
           s\<lparr>scenes := batch, scenesId := Suc (scenesId s), active := 0, playing := True,
             loading := False,
             effects := effects s @ ProviderCall (showTopic evtName s)
               # speak synth (map_option narration (at_index batch 0)) (narrationOn s) (localeTag s)\<rparr>"
  using assms by (simp add: startShow_def Let_def)

lemma startShow_failure:
  assumes "showTopic evtName s \<noteq> []" and "provide (showTopic evtName s) = None"
  shows "startShow provide synth evtName s =
           s\<lparr>loading := False,
             effects := effects s
               @ [ProviderCall (showTopic evtName s), ConsoleError, Alert failureMessage]\<rparr>"
  using assms by (simp add: startShow_def Let_def)

lemma render_same [simp]: "render s s = s"
  by (simp add: render_def)

lemma at_index_0: "at_index xs 0 = (case xs of [] \<Rightarrow> None | x # _ \<Rightarrow> Some x)"
  by (cases xs) (simp_all add: at_index_def)

subsection \<open>Evaluating the model on the Apollo show\<close>

lemma trim_apollo: "trim (js ''Apollo 11'') = js ''Apollo 11''"
  by (simp add: trim_def js_def isWhiteSpace_def)

lemma apollo_not_blank: "js ''Apollo 11'' \<noteq> []"
  by (simp add: js_def)

lemma generate_apollo: "generateScenesLocally toLowerCase_ascii (js ''Apollo 11'') = moon_scenes"
  by (simp add: generateScenesLocally_def js_def toLowerCase_ascii_def trim_def isWhiteSpace_def)

lemma length_moon_scenes: "length moon_scenes = 3"
  by (simp add: moon_scenes_def)

lemma begin_apollo:
  "step (localProvider toLowerCase_ascii) True BeginClick (initialState\<lparr>eventName := js ''Apollo 11''\<rparr>)
     = Some apolloShow"
  by (simp add: initialState_def render_def autoplayDeps_def startShow_success showTopic_def
      trim_apollo apollo_not_blank localProvider_def generate_apollo at_index_def
      length_moon_scenes speak_def armInterval_def apolloShow_def)

lemma reachable_apolloShow: "reachable (localProvider toLowerCase_ascii) True apolloShow"
proof -
  have "step (localProvider toLowerCase_ascii) True (InputChange (js ''Apollo 11'')) initialState
          = Some (initialState\<lparr>eventName := js ''Apollo 11''\<rparr>)"
    by (simp add: render_def autoplayDeps_def)
  then have "reachable (localProvider toLowerCase_ascii) True (initialState\<lparr>eventName := js ''Apollo 11''\<rparr>)"
    using reachable_init reachable_step by blast
  then show ?thesis
    using begin_apollo reachable_step by blast
qed

text \<open>
  C6. When the topic is empty after trimming, \<open>startShow\<close> leaves the whole state as it
  was: \<open>scenes\<close>, \<open>active\<close>, \<open>playing\<close> and \<open>loading\<close> keep their values, and the trace of
  effects gains nothing, so the provider is not called and no failure is reported. The
  same holds for the click on the begin button.
\<close>

theorem C6_blank_topic_is_noop:
  assumes "trim (case evtName of None \<Rightarrow> eventName s | Some n \<Rightarrow> n) = []"
  shows "startShow provide synth evtName s = s
         \<and> (evtName = None \<longrightarrow> step provide synth BeginClick s = Some s)"
proof -
  have "showTopic evtName s = []"
    using assms by (simp add: showTopic_def)
  then have "startShow provide synth evtName s = s"
    by (rule startShow_blank)
  then show ?thesis
    by auto
qed

theorem C6_blank_topic_is_noop_witness:
  "trim (case Some (js ''   '') of None \<Rightarrow> eventName apolloShow | Some n \<Rightarrow> n) = []
   \<and> startShow (localProvider toLowerCase_ascii) True (Some (js ''   '')) apolloShow = apolloShow
   \<and> trim (case None of None \<Rightarrow> eventName initialState | Some n \<Rightarrow> n) = []
   \<and> step (localProvider toLowerCase_ascii) True BeginClick initialState = Some initialState"
proof -
  have a: "trim (case Some (js ''   '') of None \<Rightarrow> eventName apolloShow | Some n \<Rightarrow> n) = []"
    by (simp add: trim_def js_def isWhiteSpace_def)
  have b: "trim (case None of None \<Rightarrow> eventName initialState | Some n \<Rightarrow> n) = []"
    by (simp add: trim_def initialState_def)
  show ?thesis
    using a b C6_blank_topic_is_noop [OF a, of "localProvider toLowerCase_ascii" True]
      C6_blank_topic_is_noop [OF b, of "localProvider toLowerCase_ascii" True]
    by simp
qed

section \<open>Installing a show\<close>


lemma speak_unfold:
  "speak synth (map_option narration (at_index batch 0)) on lang =
     (if on \<and> synth
      then [SinkCancel, SinkSpeak (case batch of [] \<Rightarrow> [] | sc # _ \<Rightarrow> narration sc) lang]
      else [])"
  by (cases batch) (auto simp: speak_def at_index_0)

text \<open>
  C1. For a topic that is not empty after trimming and a provider that answers with a
  sequence, \<open>startShow\<close> installs that sequence, sets \<open>active\<close> to 0 whatever it was,
  sets \<open>playing\<close>, leaves \<open>loading\<close> false, and speaks the narration of scene 0
  (cancelling first) when narration is enabled and the browser has speech synthesis.
\<close>

theorem C1_startShow_installs:
  assumes "trim (case evtName of None \<Rightarrow> eventName s | Some n \<Rightarrow> n) = name"
    and "name \<noteq> []"
    and "provide name = Some batch"
  shows "scenes (startShow provide synth evtName s) = batch
         \<and> active (startShow provide synth evtName s) = 0
         \<and> playing (startShow provide synth evtName s)
         \<and> \<not> loading (startShow provide synth evtName s)
         \<and> effects (startShow provide synth evtName s) =
             effects s @ ProviderCall name
               # (if narrationOn s \<and> synth
                  then [SinkCancel,
                        SinkSpeak (case batch of [] \<Rightarrow> [] | sc # _ \<Rightarrow> narration sc) (localeTag s)]
                  else [])"
proof -
  have t: "showTopic evtName s = name"
    using assms(1) by (simp add: showTopic_def)
  have "startShow provide synth evtName s =
           s\<lparr>scenes := batch, scenesId := Suc (scenesId s), active := 0, playing := True,
             loading := False,
             effects := effects s @ ProviderCall name
               # speak synth (map_option narration (at_index batch 0)) (narrationOn s) (localeTag s)\<rparr>"
    using startShow_success [of evtName s provide batch synth] assms(2,3) t by simp
  then show ?thesis
    by (simp add: speak_unfold)
qed

lemma moon_scenes_Cons: "moon_scenes = moon_scenes ! 0 # tl moon_scenes"
  by (simp add: moon_scenes_def)

theorem C1_startShow_installs_witness:
  "trim (case Some (js ''Apollo 11'') of None \<Rightarrow> eventName (apolloShow\<lparr>active := 2\<rparr>) | Some n \<Rightarrow> n)
     = js ''Apollo 11''
   \<and> js ''Apollo 11'' \<noteq> []
   \<and> localProvider toLowerCase_ascii (js ''Apollo 11'') = Some moon_scenes
   \<and> active (apolloShow\<lparr>active := 2\<rparr>) = 2
   \<and> scenes (startShow (localProvider toLowerCase_ascii) True (Some (js ''Apollo 11'')) (apolloShow\<lparr>active := 2\<rparr>))
       = moon_scenes
   \<and> active (startShow (localProvider toLowerCase_ascii) True (Some (js ''Apollo 11'')) (apolloShow\<lparr>active := 2\<rparr>))
       = 0
   \<and> playing (startShow (localProvider toLowerCase_ascii) True (Some (js ''Apollo 11'')) (apolloShow\<lparr>active := 2\<rparr>))
   \<and> effects (startShow (localProvider toLowerCase_ascii) True (Some (js ''Apollo 11'')) (apolloShow\<lparr>active := 2\<rparr>))
       = effects apolloShow
           @ [ProviderCall (js ''Apollo 11''), SinkCancel, SinkSpeak (narration (moon_scenes ! 0)) en_US]"
proof -
  have a: "trim (case Some (js ''Apollo 11'') of None \<Rightarrow> eventName (apolloShow\<lparr>active := 2\<rparr>) | Some n \<Rightarrow> n)
     = js ''Apollo 11''"
    by (simp add: trim_apollo)
  have b: "localProvider toLowerCase_ascii (js ''Apollo 11'') = Some moon_scenes"
    by (simp add: localProvider_def generate_apollo)
  have c: "(case moon_scenes of [] \<Rightarrow> [] | sc # _ \<Rightarrow> narration sc) = narration (moon_scenes ! 0)"
    by (subst moon_scenes_Cons) simp
  have d: "narrationOn (apolloShow\<lparr>active := 2\<rparr>)" "localeTag (apolloShow\<lparr>active := 2\<rparr>) = en_US"
    "active (apolloShow\<lparr>active := 2\<rparr>) = 2" "effects (apolloShow\<lparr>active := 2\<rparr>) = effects apolloShow"
    by (simp_all add: apolloShow_def)
  show ?thesis
    using C1_startShow_installs [where evtName = "Some (js ''Apollo 11'')" and s = "apolloShow\<lparr>active := 2\<rparr>"
        and synth = True and provide = "localProvider toLowerCase_ascii" and name = "js ''Apollo 11''"
        and batch = moon_scenes, OF a apollo_not_blank b] a b c d apollo_not_blank
    by simp
qed

lemma generate_cases:
  "generateScenesLocally lower n = moon_scenes \<or> generateScenesLocally lower n = egypt_scenes
   \<or> generateScenesLocally lower n = wwii_scenes \<or> generateScenesLocally lower n = generic_scenes n"
  by (simp add: generateScenesLocally_def Let_def)

lemma length_generate: "length (generateScenesLocally lower n) = 3"
  using generate_cases [of lower n]
  by (auto simp: moon_scenes_def egypt_scenes_def wwii_scenes_def generic_scenes_def)

lemma at_index_generate:
  "at_index (generateScenesLocally lower n) 0 = Some (generateScenesLocally lower n ! 0)"
  by (simp add: at_index_def length_generate)

lemma populated_moon: "list_all (\<lambda>sc. fullyPopulated sc \<and> length (palette sc) = 4) moon_scenes"
  by (simp add: moon_scenes_def fullyPopulated_def populatedButTimeAndPlace_def
      CameraStyle_values_def EnvName_values_def js_def)

lemma populated_egypt: "list_all (\<lambda>sc. fullyPopulated sc \<and> length (palette sc) = 4) egypt_scenes"
  by (simp add: egypt_scenes_def fullyPopulated_def populatedButTimeAndPlace_def
      CameraStyle_values_def EnvName_values_def js_def)

lemma populated_wwii: "list_all (\<lambda>sc. fullyPopulated sc \<and> length (palette sc) = 4) wwii_scenes"
  by (simp add: wwii_scenes_def fullyPopulated_def populatedButTimeAndPlace_def
      CameraStyle_values_def EnvName_values_def js_def)

lemma populated_generic:
  "list_all (\<lambda>sc. populatedButTimeAndPlace sc \<and> length (palette sc) = 4
               \<and> timePeriod sc = [] \<and> location sc = []) (generic_scenes n)"
  by (simp add: generic_scenes_def populatedButTimeAndPlace_def
      CameraStyle_values_def EnvName_values_def js_def)

lemma generate_keyword:
  "matchesKeyword lower n \<Longrightarrow>
     generateScenesLocally lower n = moon_scenes \<or> generateScenesLocally lower n = egypt_scenes
     \<or> generateScenesLocally lower n = wwii_scenes"
  by (auto simp: generateScenesLocally_def matchesKeyword_def Let_def)

lemma generate_fallback:
  "\<not> matchesKeyword lower n \<Longrightarrow> generateScenesLocally lower n = generic_scenes n"
  by (simp add: generateScenesLocally_def matchesKeyword_def Let_def)

lemma fullyPopulated_generate:
  assumes "matchesKeyword lower n"
  shows "list_all (\<lambda>sc. fullyPopulated sc \<and> length (palette sc) = 4) (generateScenesLocally lower n)"
  using generate_keyword [OF assms] populated_moon populated_egypt populated_wwii by auto

lemma populated_generate:
  "list_all (\<lambda>sc. populatedButTimeAndPlace sc \<and> length (palette sc) = 4)
     (generateScenesLocally lower n)"
proof (cases "matchesKeyword lower n")
  case True
  from fullyPopulated_generate [OF this] show ?thesis
    by (simp add: list_all_iff fullyPopulated_def)
next
  case False
  then show ?thesis
    using populated_generic [of n] by (simp add: generate_fallback list_all_iff)
qed

lemma trim_rome: "trim (js ''Rome'') = js ''Rome''"
  by (simp add: trim_def js_def isWhiteSpace_def)

lemma rome_no_keyword: "\<not> matchesKeyword toLowerCase_ascii (js ''Rome'')"
  by (simp add: matchesKeyword_def js_def toLowerCase_ascii_def trim_def isWhiteSpace_def)

lemma apollo_keyword: "matchesKeyword toLowerCase_ascii (js ''Apollo 11'')"
  by (simp add: matchesKeyword_def js_def toLowerCase_ascii_def trim_def isWhiteSpace_def)

text \<open>
  C10 as stated fails. The event name \<open>Rome\<close> contains none of the keywords, so the
  provider answers with the three fallback scenes, whose \<open>timePeriod\<close> and \<open>location\<close>
  are the empty string: the scenes are not fully populated.
\<close>

theorem C10_counterexample:
  "generateScenesLocally toLowerCase_ascii (js ''Rome'') = generic_scenes (js ''Rome'')
   \<and> timePeriod (generateScenesLocally toLowerCase_ascii (js ''Rome'') ! 0) = []
   \<and> location (generateScenesLocally toLowerCase_ascii (js ''Rome'') ! 0) = []
   \<and> \<not> list_all fullyPopulated (generateScenesLocally toLowerCase_ascii (js ''Rome''))"
proof -
  have g: "generateScenesLocally toLowerCase_ascii (js ''Rome'') = generic_scenes (js ''Rome'')"
    using rome_no_keyword by (rule generate_fallback)
  have "timePeriod (generic_scenes (js ''Rome'') ! 0) = []"
    and "location (generic_scenes (js ''Rome'') ! 0) = []"
    and "\<not> list_all fullyPopulated (generic_scenes (js ''Rome''))"
    by (simp_all add: generic_scenes_def fullyPopulated_def)
  then show ?thesis
    by (simp add: g)
qed

text \<open>
  C10 (as the code has it). Whatever the event name (and whatever the case mapping of
  the platform), the local provider returns exactly three scenes, each with a title, a
  one-line summary, a narration, keywords, a palette of four colours, a known environment
  and a known camera style. When the name contains one of the keywords the scenes are
  fully populated; otherwise they are the three fallback scenes, in which \<open>timePeriod\<close>
  and \<open>location\<close> are the empty string. So \<open>startShow\<close> with the local provider and a topic
  that is not empty after trimming always installs the three scenes, and adds neither
  \<open>console.error\<close> nor \<open>alert\<close> to the trace: the \<open>catch\<close> branch is not taken.
\<close>

theorem C10_local_provider_scenes:
  "length (generateScenesLocally lower topic) = 3
   \<and> list_all (\<lambda>sc. populatedButTimeAndPlace sc \<and> length (palette sc) = 4)
         (generateScenesLocally lower topic)
   \<and> (matchesKeyword lower topic \<longrightarrow> list_all fullyPopulated (generateScenesLocally lower topic))
   \<and> (\<not> matchesKeyword lower topic \<longrightarrow>
         generateScenesLocally lower topic = generic_scenes topic
         \<and> list_all (\<lambda>sc. timePeriod sc = [] \<and> location sc = []) (generateScenesLocally lower topic))
   \<and> (showTopic evtName s \<noteq> [] \<longrightarrow>
        startShow (localProvider lower) synth evtName s =
          s\<lparr>scenes := generateScenesLocally lower (showTopic evtName s),
            scenesId := Suc (scenesId s), active := 0, playing := True, loading := False,
            effects := effects s @ ProviderCall (showTopic evtName s)
              # speak synth (Some (narration (generateScenesLocally lower (showTopic evtName s) ! 0)))
                  (narrationOn s) (localeTag s)\<rparr>
        \<and> \<not> list_ex isFailure (newEffects s (startShow (localProvider lower) synth evtName s)))"
proof -
  have full: "list_all fullyPopulated (generateScenesLocally lower topic)"
    if "matchesKeyword lower topic"
    using fullyPopulated_generate [OF that] by (simp add: list_all_iff)
  have fallback: "generateScenesLocally lower topic = generic_scenes topic
         \<and> list_all (\<lambda>sc. timePeriod sc = [] \<and> location sc = []) (generateScenesLocally lower topic)"
    if "\<not> matchesKeyword lower topic"
    using populated_generic [of topic] by (simp add: generate_fallback [OF that] list_all_iff)
  have start: "startShow (localProvider lower) synth evtName s =
          s\<lparr>scenes := generateScenesLocally lower (showTopic evtName s),
            scenesId := Suc (scenesId s), active := 0, playing := True, loading := False,
            effects := effects s @ ProviderCall (showTopic evtName s)
              # speak synth (Some (narration (generateScenesLocally lower (showTopic evtName s) ! 0)))
                  (narrationOn s) (localeTag s)\<rparr>"
    if "showTopic evtName s \<noteq> []"
    using startShow_success [OF that, of "localProvider lower" "generateScenesLocally lower (showTopic evtName s)" synth]
    by (simp add: localProvider_def at_index_generate)
  have quiet: "\<not> list_ex isFailure (newEffects s (startShow (localProvider lower) synth evtName s))"
    if "showTopic evtName s \<noteq> []"
    using start [OF that] by (simp add: newEffects_def speak_def)
  show ?thesis
    using length_generate populated_generate full fallback start quiet by blast
qed

theorem C10_local_provider_scenes_witness:
  "matchesKeyword toLowerCase_ascii (js ''Apollo 11'')
   \<and> length (generateScenesLocally toLowerCase_ascii (js ''Apollo 11'')) = 3
   \<and> list_all fullyPopulated (generateScenesLocally toLowerCase_ascii (js ''Apollo 11''))
   \<and> \<not> matchesKeyword toLowerCase_ascii (js ''Rome'')
   \<and> generateScenesLocally toLowerCase_ascii (js ''Rome'') = generic_scenes (js ''Rome'')
   \<and> list_all (\<lambda>sc. timePeriod sc = [] \<and> location sc = [])
         (generateScenesLocally toLowerCase_ascii (js ''Rome''))
   \<and> showTopic (Some (js ''Apollo 11'')) initialState \<noteq> []
   \<and> scenes (startShow (localProvider toLowerCase_ascii) True (Some (js ''Apollo 11'')) initialState)
       = moon_scenes
   \<and> \<not> list_ex isFailure
         (newEffects initialState
            (startShow (localProvider toLowerCase_ascii) True (Some (js ''Apollo 11'')) initialState))"
proof -
  have a: "showTopic (Some (js ''Apollo 11'')) initialState = js ''Apollo 11''"
    by (simp add: showTopic_def trim_apollo)
  note apollo = C10_local_provider_scenes [of toLowerCase_ascii "js ''Apollo 11''"
        "Some (js ''Apollo 11'')" initialState True]
  note rome = C10_local_provider_scenes [of toLowerCase_ascii "js ''Rome''"
        "Some (js ''Apollo 11'')" initialState True]
  have 1: "length (generateScenesLocally toLowerCase_ascii (js ''Apollo 11'')) = 3"
    and 2: "list_all fullyPopulated (generateScenesLocally toLowerCase_ascii (js ''Apollo 11''))"
    using apollo apollo_keyword by blast+
  have 3: "generateScenesLocally toLowerCase_ascii (js ''Rome'') = generic_scenes (js ''Rome'')"
    and 4: "list_all (\<lambda>sc. timePeriod sc = [] \<and> location sc = [])
         (generateScenesLocally toLowerCase_ascii (js ''Rome''))"
    using rome rome_no_keyword by blast+
  have 5: "showTopic (Some (js ''Apollo 11'')) initialState \<noteq> []"
    by (simp add: a apollo_not_blank)
  have "startShow (localProvider toLowerCase_ascii) True (Some (js ''Apollo 11'')) initialState =
          initialState\<lparr>scenes := generateScenesLocally toLowerCase_ascii (showTopic (Some (js ''Apollo 11'')) initialState),
            scenesId := Suc (scenesId initialState), active := 0, playing := True, loading := False,
            effects := effects initialState @ ProviderCall (showTopic (Some (js ''Apollo 11'')) initialState)
              # speak True (Some (narration (generateScenesLocally toLowerCase_ascii (showTopic (Some (js ''Apollo 11'')) initialState) ! 0)))
                  (narrationOn initialState) (localeTag initialState)\<rparr>"
    and 7: "\<not> list_ex isFailure
         (newEffects initialState
            (startShow (localProvider toLowerCase_ascii) True (Some (js ''Apollo 11'')) initialState))"
    using apollo 5 by blast+
  then have 6: "scenes (startShow (localProvider toLowerCase_ascii) True (Some (js ''Apollo 11'')) initialState)
       = moon_scenes"
    by (simp add: a generate_apollo)
  show ?thesis
    using apollo_keyword rome_no_keyword 1 2 3 4 5 6 7 by blast
qed

section \<open>Invariants of the playback machine\<close>


lemma js_rem_nonneg: "0 \<le> a \<Longrightarrow> 0 < b \<Longrightarrow> js_rem a b = a mod b"
  by (simp add: js_rem_def)

lemma render_fields [simp]:
  "localeTag (render s s') = localeTag s'" "eventName (render s s') = eventName s'"
  "scenes (render s s') = scenes s'" "scenesId (render s s') = scenesId s'"
  "active (render s s') = active s'" "playing (render s s') = playing s'"
  "autoplay (render s s') = autoplay s'" "narrationOn (render s s') = narrationOn s'"
  "quality (render s s') = quality s'" "loading (render s s') = loading s'"
  "effects (render s s') = effects s'"
  by (simp_all add: render_def)

lemma activeInRange_render [simp]: "activeInRange (render s s') = activeInRange s'"
  by (simp add: activeInRange_def)

lemma timerCoherent_arm: "timerCoherent (s\<lparr>timer := armInterval s\<rparr>)"
  by (simp add: timerCoherent_def armInterval_def)

lemma timerCoherent_render:
  assumes "timerCoherent s" and "timer s' = timer s"
    and "autoplayDeps s' = autoplayDeps s \<Longrightarrow> scenes s' = scenes s"
  shows "timerCoherent (render s s')"
proof (cases "autoplayDeps s' = autoplayDeps s")
  case True
  then have "scenes s' = scenes s" by (rule assms(3))
  with True assms(1,2) have "timerCoherent s'"
    by (auto simp: timerCoherent_def autoplayDeps_def split: option.splits)
  with True show ?thesis by (simp add: render_def)
next
  case False
  then show ?thesis by (simp add: render_def timerCoherent_arm)
qed

lemma startShow_timer [simp]: "timer (startShow provide synth evtName s) = timer s"
  by (simp add: startShow_def Let_def split: option.splits)

lemma startShow_scenes_deps:
  "autoplayDeps (startShow provide synth evtName s) = autoplayDeps s
   \<Longrightarrow> scenes (startShow provide synth evtName s) = scenes s"
  by (simp add: startShow_def Let_def autoplayDeps_def split: option.splits if_splits)

lemma startShow_activeInRange:
  "activeInRange s \<Longrightarrow> activeInRange (startShow provide synth evtName s)"
  by (simp add: startShow_def Let_def activeInRange_def split: option.splits)

lemma onClick_next_activeInRange:
  "scenes s \<noteq> [] \<Longrightarrow> activeInRange s \<Longrightarrow> activeInRange (onClick_next synth s)"
  by (simp add: onClick_next_def Let_def activeInRange_def js_rem_nonneg)

lemma onClick_previous_activeInRange:
  "scenes s \<noteq> [] \<Longrightarrow> activeInRange s \<Longrightarrow> activeInRange (onClick_previous synth s)"
  by (simp add: onClick_previous_def Let_def activeInRange_def js_rem_nonneg)

lemma interval_callback_invariant:
  assumes "activeInRange s" and "timerCoherent s" and "timer s = Some iv"
  shows "activeInRange ((interval_callback synth iv s)\<lparr>timer := Some (iv\<lparr>remaining := 6800\<rparr>)\<rparr>)
         \<and> timerCoherent ((interval_callback synth iv s)\<lparr>timer := Some (iv\<lparr>remaining := 6800\<rparr>)\<rparr>)"
  using assms
  by (simp add: interval_callback_def Let_def activeInRange_def timerCoherent_def js_rem_nonneg)

lemma elapse_idle: "timer s = None \<Longrightarrow> elapse synth d s = s"
  by (subst elapse.simps) simp

lemma elapse_fire:
  "timer s = Some iv \<Longrightarrow> 0 < remaining iv \<Longrightarrow> remaining iv \<le> d
   \<Longrightarrow> elapse synth d s =
       elapse synth (d - remaining iv)
         ((interval_callback synth iv s)\<lparr>timer := Some (iv\<lparr>remaining := 6800\<rparr>)\<rparr>)"
  by (subst elapse.simps) simp

lemma elapse_wait:
  "timer s = Some iv \<Longrightarrow> \<not> (0 < remaining iv \<and> remaining iv \<le> d)
   \<Longrightarrow> elapse synth d s = s\<lparr>timer := Some (iv\<lparr>remaining := remaining iv - d\<rparr>)\<rparr>"
  by (subst elapse.simps) auto

lemma elapse_invariant:
  "activeInRange s \<Longrightarrow> timerCoherent s
   \<Longrightarrow> activeInRange (elapse synth d s) \<and> timerCoherent (elapse synth d s)"
proof (induction synth d s rule: elapse.induct)
  case (1 synth d s)
  show ?case
  proof (cases "timer s")
    case None
    with "1.prems" show ?thesis by (simp add: elapse_idle)
  next
    case (Some iv)
    show ?thesis
    proof (cases "0 < remaining iv \<and> remaining iv \<le> d")
      case True
      have "elapse synth d s = elapse synth (d - remaining iv)
             ((interval_callback synth iv s)\<lparr>timer := Some (iv\<lparr>remaining := 6800\<rparr>)\<rparr>)"
        using Some True by (simp add: elapse_fire)
      moreover note "1.IH" [OF Some True] interval_callback_invariant [OF "1.prems" Some, of synth]
      ultimately show ?thesis by simp
    next
      case False
      then have "elapse synth d s = s\<lparr>timer := Some (iv\<lparr>remaining := remaining iv - d\<rparr>)\<rparr>"
        using Some by (simp add: elapse_wait)
      with "1.prems" Some False show ?thesis
        by (auto simp: activeInRange_def timerCoherent_def)
    qed
  qed
qed


lemma step_invariant:
  assumes "activeInRange s" and "timerCoherent s" and "step provide synth e s = Some s'"
  shows "activeInRange s' \<and> timerCoherent s'"
proof (cases e)
  case (InputChange v)
  with assms show ?thesis
    by (auto simp: activeInRange_def intro!: timerCoherent_render)
next
  case BeginClick
  with assms show ?thesis
    by (auto simp: startShow_activeInRange startShow_scenes_deps intro!: timerCoherent_render)
next
  case (SuggestedClick x)
  have "activeInRange (s\<lparr>eventName := x\<rparr>)"
    using assms(1) by (simp add: activeInRange_def)
  moreover have "autoplayDeps (startShow provide synth (Some x) (s\<lparr>eventName := x\<rparr>)) = autoplayDeps s
     \<Longrightarrow> scenes (startShow provide synth (Some x) (s\<lparr>eventName := x\<rparr>)) = scenes s"
    using startShow_scenes_deps [of provide synth "Some x" "s\<lparr>eventName := x\<rparr>"]
    by (simp add: autoplayDeps_def)
  ultimately show ?thesis
    using assms SuggestedClick
    by (auto simp: startShow_activeInRange split: if_splits intro!: timerCoherent_render)
next
  case (AutoplayChange b)
  with assms show ?thesis
    by (auto simp: activeInRange_def intro!: timerCoherent_render)
next
  case (NarrationChange b)
  with assms show ?thesis
    by (auto simp: activeInRange_def intro!: timerCoherent_render)
next
  case (QualityChange q)
  with assms show ?thesis
    by (auto simp: activeInRange_def split: if_splits intro!: timerCoherent_render)
next
  case (LocaleChange l)
  with assms show ?thesis
    by (auto simp: activeInRange_def intro!: timerCoherent_render)
next
  case PrevClick
  with assms show ?thesis
    by (auto simp: onClick_previous_activeInRange split: if_splits intro!: timerCoherent_render)
      (simp_all add: onClick_previous_def Let_def)
next
  case PlayPauseClick
  with assms show ?thesis
    by (auto simp: activeInRange_def split: if_splits intro!: timerCoherent_render)
next
  case NextClick
  with assms show ?thesis
    by (auto simp: onClick_next_activeInRange split: if_splits intro!: timerCoherent_render)
      (simp_all add: onClick_next_def Let_def)
next
  case (SeekChange v)
  with assms show ?thesis
    by (auto simp: activeInRange_def split: if_splits intro!: timerCoherent_render)
next
  case (Elapse d)
  with assms show ?thesis
    using elapse_invariant [of s synth d] by auto
qed

lemma reachable_invariant:
  "reachable provide synth s \<Longrightarrow> activeInRange s \<and> timerCoherent s"
proof (induction rule: reachable.induct)
  case reachable_init
  show ?case by (simp add: initialState_def activeInRange_def timerCoherent_def)
next
  case (reachable_step s e s')
  then show ?case using step_invariant by blast
qed

text \<open>
  C7. The index invariant holds in the initial state, holds in every state the machine
  can reach, and so is kept by every operation: starting a show, next, previous, the seek
  slider, play and pause, the firing of the autoplay timer, and the updates of the flags,
  of the language and of the quality.
\<close>

theorem C7_active_index_invariant:
  "activeInRange initialState
   \<and> (reachable provide synth s \<longrightarrow>
        activeInRange s \<and> (\<forall>e s'. step provide synth e s = Some s' \<longrightarrow> activeInRange s'))"
proof -
  have "activeInRange initialState"
    by (simp add: initialState_def activeInRange_def)
  moreover have "activeInRange s \<and> (\<forall>e s'. step provide synth e s = Some s' \<longrightarrow> activeInRange s')"
    if "reachable provide synth s"
    using reachable_invariant [OF that] step_invariant [of s provide synth] by blast
  ultimately show ?thesis by blast
qed

lemma step_seek_apollo:
  "step (localProvider toLowerCase_ascii) True (SeekChange 2) apolloShow = Some (apolloShow\<lparr>active := 2\<rparr>)"
  by (simp add: apolloShow_def length_moon_scenes render_def autoplayDeps_def)

theorem C7_active_index_invariant_witness:
  "reachable (localProvider toLowerCase_ascii) True apolloShow
   \<and> activeInRange apolloShow
   \<and> step (localProvider toLowerCase_ascii) True (SeekChange 2) apolloShow = Some (apolloShow\<lparr>active := 2\<rparr>)
   \<and> activeInRange (apolloShow\<lparr>active := 2\<rparr>)"
  using C7_active_index_invariant [of "localProvider toLowerCase_ascii" True apolloShow]
    reachable_apolloShow step_seek_apollo
  by blast


lemma elapse_zero: "timerCoherent s \<Longrightarrow> elapse synth 0 s = s"
  by (cases "timer s") (auto simp: elapse_idle elapse_wait timerCoherent_def)

lemma elapse_before_firing:
  assumes "timer s = Some iv" and "d < remaining iv"
  shows "elapse synth d s = s\<lparr>timer := Some (iv\<lparr>remaining := remaining iv - d\<rparr>)\<rparr>"
  using assms by (simp add: elapse_wait)

lemma interval_callback_coherent:
  assumes "activeInRange s" and "timerCoherent s" and "timer s = Some iv"
  shows "interval_callback synth iv s =
           s\<lparr>active := (active s + 1) mod int (length (scenes s)),
             effects := effects s
               @ speak synth (Some (narration (scenes s ! nat ((active s + 1) mod int (length (scenes s))))))
                   (narrationOn s) (localeTag s)\<rparr>"
proof -
  have c: "cb_scenes iv = scenes s" "cb_narration iv = narrationOn s" "cb_locale iv = localeTag s"
    "scenes s \<noteq> []"
    using assms(2,3) by (simp_all add: timerCoherent_def)
  have r: "0 \<le> active s"
    using assms(1) c(4) by (simp add: activeInRange_def)
  have "js_rem (active s + 1) (int (length (scenes s))) = (active s + 1) mod int (length (scenes s))"
    using r c(4) by (simp add: js_rem_nonneg)
  moreover have "at_index (scenes s) ((active s + 1) mod int (length (scenes s)))
      = Some (scenes s ! nat ((active s + 1) mod int (length (scenes s))))"
    using c(4) by (simp add: at_index_def)
  ultimately show ?thesis
    by (simp add: interval_callback_def Let_def c)
qed

lemma elapse_one_period:
  assumes "activeInRange s" and "timerCoherent s" and "timer s = Some iv"
  shows "elapse synth (remaining iv) s =
           s\<lparr>active := (active s + 1) mod int (length (scenes s)),
             effects := effects s
               @ speak synth (Some (narration (scenes s ! nat ((active s + 1) mod int (length (scenes s))))))
                   (narrationOn s) (localeTag s),
             timer := Some (iv\<lparr>remaining := 6800\<rparr>)\<rparr>"
proof -
  have pos: "0 < remaining iv"
    using assms(2,3) by (simp add: timerCoherent_def)
  let ?s1 = "(interval_callback synth iv s)\<lparr>timer := Some (iv\<lparr>remaining := 6800\<rparr>)\<rparr>"
  have "elapse synth (remaining iv) s = elapse synth 0 ?s1"
    using elapse_fire [OF assms(3) pos, of "remaining iv" synth] by simp
  also have "\<dots> = ?s1"
    using interval_callback_invariant [OF assms, of synth] by (simp add: elapse_zero)
  finally show ?thesis
    by (simp add: interval_callback_coherent [OF assms])
qed

lemma autoplay_off:
  assumes "timerCoherent s"
  shows "step provide synth (AutoplayChange False) s
           = Some (s\<lparr>autoplay := False, timer := None\<rparr>)"
proof (cases "autoplay s")
  case True
  then show ?thesis
    by (simp add: render_def autoplayDeps_def armInterval_def)
next
  case False
  then have "timer s = None"
    using assms by (auto simp: timerCoherent_def split: option.splits)
  with False show ?thesis
    by (simp add: render_def autoplayDeps_def)
qed

lemma autoplay_on:
  assumes "\<not> autoplay s" and "playing s" and "scenes s \<noteq> []"
  shows "step provide synth (AutoplayChange True) s
           = Some (s\<lparr>autoplay := True,
                     timer := Some \<lparr>remaining = 6800, cb_scenes = scenes s,
                                    cb_narration = narrationOn s, cb_locale = localeTag s\<rparr>\<rparr>)"
  using assms by (simp add: render_def autoplayDeps_def armInterval_def)

text \<open>
  C5. In every state the machine can reach: an interval is armed exactly while
  \<open>playing\<close>, \<open>autoplay\<close> and a non-empty \<open>scenes\<close> hold, and there is at most one. An
  armed interval is due within 6800 units; until it is due nothing changes but the time
  left; when it is due, \<open>active\<close> advances to \<open>(active + 1) mod scenes.length\<close>, the
  narration of the new scene is spoken, and the interval is due again a full 6800 later.
  With no interval armed, time passing changes nothing. Switching autoplay off disarms
  the interval, so no time span brings a further advance; switching it on again (while
  playing, with scenes) arms an interval with the full period of 6800, whatever was left
  of the earlier one.
\<close>

theorem C5_autoplay_timer:
  assumes "reachable provide synth s"
  shows "(timer s \<noteq> None) = (playing s \<and> autoplay s \<and> length (scenes s) > 0)
    \<and> (\<forall>iv. timer s = Some iv \<longrightarrow>
          0 < remaining iv \<and> remaining iv \<le> 6800
          \<and> (\<forall>d < remaining iv.
                elapse synth d s = s\<lparr>timer := Some (iv\<lparr>remaining := remaining iv - d\<rparr>)\<rparr>)
          \<and> elapse synth (remaining iv) s =
              s\<lparr>active := (active s + 1) mod int (length (scenes s)),
                effects := effects s
                  @ speak synth
                      (Some (narration (scenes s ! nat ((active s + 1) mod int (length (scenes s))))))
                      (narrationOn s) (localeTag s),
                timer := Some (iv\<lparr>remaining := 6800\<rparr>)\<rparr>)
    \<and> (timer s = None \<longrightarrow> (\<forall>d. elapse synth d s = s))
    \<and> step provide synth (AutoplayChange False) s = Some (s\<lparr>autoplay := False, timer := None\<rparr>)
    \<and> (\<forall>d. elapse synth d (s\<lparr>autoplay := False, timer := None\<rparr>) = s\<lparr>autoplay := False, timer := None\<rparr>)
    \<and> (\<not> autoplay s \<and> playing s \<and> scenes s \<noteq> [] \<longrightarrow>
          step provide synth (AutoplayChange True) s
            = Some (s\<lparr>autoplay := True,
                      timer := Some \<lparr>remaining = 6800, cb_scenes = scenes s,
                                     cb_narration = narrationOn s, cb_locale = localeTag s\<rparr>\<rparr>))"
proof -
  have inv: "activeInRange s" "timerCoherent s"
    using reachable_invariant [OF assms] by simp_all
  have a: "(timer s \<noteq> None) = (playing s \<and> autoplay s \<and> length (scenes s) > 0)"
    using inv(2) by (auto simp: timerCoherent_def split: option.splits)
  have b: "0 < remaining iv \<and> remaining iv \<le> 6800" if "timer s = Some iv" for iv
    using inv(2) that by (simp add: timerCoherent_def)
  have c: "\<forall>d < remaining iv. elapse synth d s = s\<lparr>timer := Some (iv\<lparr>remaining := remaining iv - d\<rparr>)\<rparr>"
    if "timer s = Some iv" for iv
    using elapse_before_firing [OF that] by blast
  note d = elapse_one_period [OF inv]
  have e: "timer s = None \<longrightarrow> (\<forall>d. elapse synth d s = s)"
    by (simp add: elapse_idle)
  note f = autoplay_off [OF inv(2), of provide synth]
  have g: "\<forall>d. elapse synth d (s\<lparr>autoplay := False, timer := None\<rparr>) = s\<lparr>autoplay := False, timer := None\<rparr>"
    by (simp add: elapse_idle)
  note h = autoplay_on [of s provide synth]
  show ?thesis
    using a b c d e f g h by blast
qed



theorem C5_autoplay_timer_witness:
  "reachable (localProvider toLowerCase_ascii) True apolloShow
   \<and> timer apolloShow
       = Some \<lparr>remaining = 6800, cb_scenes = moon_scenes, cb_narration = True, cb_locale = en_US\<rparr>
   \<and> elapse True 6799 apolloShow
       = apolloShow\<lparr>timer := Some \<lparr>remaining = 1, cb_scenes = moon_scenes, cb_narration = True,
                                     cb_locale = en_US\<rparr>\<rparr>
   \<and> elapse True 6800 apolloShow
       = apolloShow\<lparr>active := 1,
           effects := effects apolloShow @ [SinkCancel, SinkSpeak (narration (moon_scenes ! 1)) en_US]\<rparr>
   \<and> step (localProvider toLowerCase_ascii) True (AutoplayChange False) apolloShow
       = Some (apolloShow\<lparr>autoplay := False, timer := None\<rparr>)
   \<and> elapse True 1000000 (apolloShow\<lparr>autoplay := False, timer := None\<rparr>)
       = apolloShow\<lparr>autoplay := False, timer := None\<rparr>
   \<and> reachable (localProvider toLowerCase_ascii) True (apolloShow\<lparr>autoplay := False, timer := None\<rparr>)
   \<and> step (localProvider toLowerCase_ascii) True (AutoplayChange True)
         (apolloShow\<lparr>autoplay := False, timer := None\<rparr>)
       = Some apolloShow"
proof -
  let ?P = "localProvider toLowerCase_ascii"
  let ?iv = "\<lparr>remaining = 6800, cb_scenes = moon_scenes, cb_narration = True, cb_locale = en_US\<rparr>"
  let ?off = "apolloShow\<lparr>autoplay := False, timer := None\<rparr>"
  note main = C5_autoplay_timer [OF reachable_apolloShow]
  have t: "timer apolloShow = Some ?iv"
    by (simp add: apolloShow_def)
  have off: "step ?P True (AutoplayChange False) apolloShow = Some ?off"
    using main by blast
  then have r: "reachable ?P True ?off"
    using reachable_apolloShow reachable_step by blast
  have idle: "elapse True 1000000 ?off = ?off"
    using main by blast
  have "\<forall>d < remaining ?iv.
          elapse True d apolloShow = apolloShow\<lparr>timer := Some (?iv\<lparr>remaining := remaining ?iv - d\<rparr>)\<rparr>"
    using main t by blast
  moreover have "(6799::nat) < remaining ?iv"
    by simp
  ultimately have "elapse True 6799 apolloShow
      = apolloShow\<lparr>timer := Some (?iv\<lparr>remaining := remaining ?iv - 6799\<rparr>)\<rparr>"
    by blast
  then have wait: "elapse True 6799 apolloShow
       = apolloShow\<lparr>timer := Some \<lparr>remaining = 1, cb_scenes = moon_scenes, cb_narration = True,
                                     cb_locale = en_US\<rparr>\<rparr>"
    by simp
  have "elapse True (remaining ?iv) apolloShow =
          apolloShow\<lparr>active := (active apolloShow + 1) mod int (length (scenes apolloShow)),
            effects := effects apolloShow
              @ speak True
                  (Some (narration (scenes apolloShow
                     ! nat ((active apolloShow + 1) mod int (length (scenes apolloShow))))))
                  (narrationOn apolloShow) (localeTag apolloShow),
            timer := Some (?iv\<lparr>remaining := 6800\<rparr>)\<rparr>"
    using main t by blast
  then have fire: "elapse True 6800 apolloShow
       = apolloShow\<lparr>active := 1,
           effects := effects apolloShow @ [SinkCancel, SinkSpeak (narration (moon_scenes ! 1)) en_US]\<rparr>"
    by (simp add: apolloShow_def length_moon_scenes speak_def)
  have "\<not> autoplay ?off \<and> playing ?off \<and> scenes ?off \<noteq> []"
    using length_moon_scenes by (auto simp: apolloShow_def)
  then have "step ?P True (AutoplayChange True) ?off
          = Some (?off\<lparr>autoplay := True,
                    timer := Some \<lparr>remaining = 6800, cb_scenes = scenes ?off,
                                   cb_narration = narrationOn ?off, cb_locale = localeTag ?off\<rparr>\<rparr>)"
    using C5_autoplay_timer [OF r] by blast
  then have on: "step ?P True (AutoplayChange True) ?off = Some apolloShow"
    by (simp add: apolloShow_def)
  show ?thesis
    using reachable_apolloShow t wait fire off idle r on by blast
qed

section \<open>Navigation\<close>

lemma onClick_next_in_range:
  assumes "scenes s \<noteq> []" and "0 \<le> active s"
  shows "onClick_next synth s =
           s\<lparr>active := (active s + 1) mod int (length (scenes s)),
             effects := effects s
               @ speak synth (Some (narration (scenes s ! nat ((active s + 1) mod int (length (scenes s))))))
                   (narrationOn s) (localeTag s)\<rparr>"
proof -
  have "js_rem (active s + 1) (int (length (scenes s))) = (active s + 1) mod int (length (scenes s))"
    using assms by (simp add: js_rem_nonneg)
  moreover have "at_index (scenes s) ((active s + 1) mod int (length (scenes s)))
      = Some (scenes s ! nat ((active s + 1) mod int (length (scenes s))))"
    using assms(1) by (simp add: at_index_def)
  ultimately show ?thesis
    by (simp add: onClick_next_def Let_def)
qed

lemma onClick_previous_in_range:
  assumes "scenes s \<noteq> []" and "0 \<le> active s"
  shows "onClick_previous synth s =
           s\<lparr>active := (active s - 1 + int (length (scenes s))) mod int (length (scenes s)),
             effects := effects s
               @ speak synth
                   (Some (narration (scenes s
                      ! nat ((active s - 1 + int (length (scenes s))) mod int (length (scenes s))))))
                   (narrationOn s) (localeTag s)\<rparr>"
proof -
  have "0 < int (length (scenes s))"
    using assms(1) by simp
  then have "0 \<le> active s - 1 + int (length (scenes s))"
    using assms(2) by linarith
  then have "js_rem (active s - 1 + int (length (scenes s))) (int (length (scenes s)))
      = (active s - 1 + int (length (scenes s))) mod int (length (scenes s))"
    using assms(1) by (simp add: js_rem_nonneg)
  moreover have "at_index (scenes s) ((active s - 1 + int (length (scenes s))) mod int (length (scenes s)))
      = Some (scenes s ! nat ((active s - 1 + int (length (scenes s))) mod int (length (scenes s))))"
    using assms(1) by (simp add: at_index_def)
  ultimately show ?thesis
    by (simp add: onClick_previous_def Let_def)
qed

lemma step_next: "scenes s \<noteq> [] \<Longrightarrow> step provide synth NextClick s = Some (onClick_next synth s)"
  by (simp add: render_def autoplayDeps_def onClick_next_def Let_def)

lemma step_previous:
  "scenes s \<noteq> [] \<Longrightarrow> step provide synth PrevClick s = Some (onClick_previous synth s)"
  by (simp add: render_def autoplayDeps_def onClick_previous_def Let_def)

lemma run_nexts:
  "scenes s \<noteq> [] \<Longrightarrow> 0 \<le> active s \<Longrightarrow> active s < int (length (scenes s))
   \<Longrightarrow> \<exists>s'. run provide synth (replicate N NextClick) s = Some s'
          \<and> scenes s' = scenes s
          \<and> active s' = (active s + int N) mod int (length (scenes s))"
proof (induction N arbitrary: s)
  case 0
  then show ?case by simp
next
  case (Suc N)
  let ?s1 = "onClick_next synth s"
  let ?n = "int (length (scenes s))"
  have s1: "scenes ?s1 = scenes s" "active ?s1 = (active s + 1) mod ?n"
    using Suc.prems by (simp_all add: onClick_next_in_range)
  then have "scenes ?s1 \<noteq> []" "0 \<le> active ?s1" "active ?s1 < int (length (scenes ?s1))"
    using Suc.prems by simp_all
  from Suc.IH [OF this] obtain s' where s':
    "run provide synth (replicate N NextClick) ?s1 = Some s'" "scenes s' = scenes ?s1"
    "active s' = (active ?s1 + int N) mod int (length (scenes ?s1))"
    by blast
  have "((active s + 1) mod ?n + int N) mod ?n = (active s + 1 + int N) mod ?n"
    by (rule mod_add_left_eq)
  then have "((active s + 1) mod ?n + int N) mod ?n = (active s + int (Suc N)) mod ?n"
    by (simp add: add.assoc)
  moreover have "run provide synth (replicate (Suc N) NextClick) s
      = run provide synth (replicate N NextClick) ?s1"
    by (simp only: replicate_Suc run.simps step_next [OF Suc.prems(1)] option.case)
  ultimately show ?case
    using s' s1 by simp
qed


text \<open>
  C2. With a non-empty sequence and the index in range, the next button sets \<open>active\<close> to
  \<open>(active + 1) mod scenes.length\<close> and the previous button to
  \<open>(active - 1 + scenes.length) mod scenes.length\<close>, each speaking the narration of the
  scene it lands on. Hence \<open>N\<close> clicks on next, starting from 0, end at
  \<open>N mod scenes.length\<close>. With a single scene a click on next keeps the index and speaks
  that scene's narration again.
\<close>

theorem C2_next_previous_wrap:
  assumes "scenes s \<noteq> []" and "0 \<le> active s" and "active s < int (length (scenes s))"
  shows "step provide synth NextClick s =
           Some (s\<lparr>active := (active s + 1) mod int (length (scenes s)),
                   effects := effects s
                     @ speak synth
                         (Some (narration (scenes s ! nat ((active s + 1) mod int (length (scenes s))))))
                         (narrationOn s) (localeTag s)\<rparr>)
    \<and> step provide synth PrevClick s =
           Some (s\<lparr>active := (active s - 1 + int (length (scenes s))) mod int (length (scenes s)),
                   effects := effects s
                     @ speak synth
                         (Some (narration (scenes s
                            ! nat ((active s - 1 + int (length (scenes s))) mod int (length (scenes s))))))
                         (narrationOn s) (localeTag s)\<rparr>)
    \<and> (active s = 0 \<longrightarrow>
          (\<exists>s'. run provide synth (replicate N NextClick) s = Some s'
                \<and> active s' = int N mod int (length (scenes s))))
    \<and> (length (scenes s) = 1 \<longrightarrow>
          step provide synth NextClick s =
            Some (s\<lparr>active := active s,
                    effects := effects s
                      @ (if narrationOn s \<and> synth
                         then [SinkCancel, SinkSpeak (narration (scenes s ! 0)) (localeTag s)]
                         else [])\<rparr>))"
proof -
  have nxt: "step provide synth NextClick s =
           Some (s\<lparr>active := (active s + 1) mod int (length (scenes s)),
                   effects := effects s
                     @ speak synth
                         (Some (narration (scenes s ! nat ((active s + 1) mod int (length (scenes s))))))
                         (narrationOn s) (localeTag s)\<rparr>)"
    by (simp only: step_next [OF assms(1)] onClick_next_in_range [OF assms(1,2)])
  have prv: "step provide synth PrevClick s =
           Some (s\<lparr>active := (active s - 1 + int (length (scenes s))) mod int (length (scenes s)),
                   effects := effects s
                     @ speak synth
                         (Some (narration (scenes s
                            ! nat ((active s - 1 + int (length (scenes s))) mod int (length (scenes s))))))
                         (narrationOn s) (localeTag s)\<rparr>)"
    by (simp only: step_previous [OF assms(1)] onClick_previous_in_range [OF assms(1,2)])
  have many: "\<exists>s'. run provide synth (replicate N NextClick) s = Some s'
                \<and> active s' = int N mod int (length (scenes s))"
    if "active s = 0"
    using run_nexts [OF assms, of provide synth N] that by auto
  have one: "step provide synth NextClick s =
            Some (s\<lparr>active := active s,
                    effects := effects s
                      @ (if narrationOn s \<and> synth
                         then [SinkCancel, SinkSpeak (narration (scenes s ! 0)) (localeTag s)]
                         else [])\<rparr>)"
    if "length (scenes s) = 1"
  proof -
    have "active s = 0"
      using assms(2,3) that by simp
    then show ?thesis
      using nxt that by (simp add: speak_def)
  qed
  show ?thesis
    using nxt prv many one by blast
qed


theorem C2_next_previous_wrap_witness:
  "scenes apolloShow \<noteq> [] \<and> active apolloShow = 0 \<and> length (scenes apolloShow) = 3
   \<and> step (localProvider toLowerCase_ascii) True NextClick apolloShow =
        Some (apolloShow\<lparr>active := 1,
                effects := effects apolloShow
                  @ [SinkCancel, SinkSpeak (narration (moon_scenes ! 1)) en_US]\<rparr>)
   \<and> step (localProvider toLowerCase_ascii) True PrevClick apolloShow =
        Some (apolloShow\<lparr>active := 2,
                effects := effects apolloShow
                  @ [SinkCancel, SinkSpeak (narration (moon_scenes ! 2)) en_US]\<rparr>)
   \<and> (\<exists>s'. run (localProvider toLowerCase_ascii) True (replicate 7 NextClick) apolloShow = Some s' \<and> active s' = 1)
   \<and> length (scenes (apolloShow\<lparr>scenes := [moon_scenes ! 0]\<rparr>)) = 1
   \<and> step (localProvider toLowerCase_ascii) True NextClick (apolloShow\<lparr>scenes := [moon_scenes ! 0]\<rparr>) =
        Some (apolloShow\<lparr>scenes := [moon_scenes ! 0],
                effects := effects apolloShow @ [SinkCancel, SinkSpeak (narration (moon_scenes ! 0)) en_US]\<rparr>)"
proof -
  let ?one = "apolloShow\<lparr>scenes := [moon_scenes ! 0]\<rparr>"
  have a: "scenes apolloShow \<noteq> []" "0 \<le> active apolloShow"
    "active apolloShow < int (length (scenes apolloShow))"
    using length_moon_scenes by (auto simp: apolloShow_def)
  have v: "active apolloShow = 0" "length (scenes apolloShow) = 3" "narrationOn apolloShow"
    "localeTag apolloShow = en_US" "scenes apolloShow = moon_scenes"
    by (simp_all add: apolloShow_def length_moon_scenes)
  note big = C2_next_previous_wrap [OF a, of "localProvider toLowerCase_ascii" True 7]
  have n1: "step (localProvider toLowerCase_ascii) True NextClick apolloShow =
        Some (apolloShow\<lparr>active := 1,
                effects := effects apolloShow
                  @ [SinkCancel, SinkSpeak (narration (moon_scenes ! 1)) en_US]\<rparr>)"
    using conjunct1 [OF big] by (simp add: v speak_def length_moon_scenes)
  have p1: "step (localProvider toLowerCase_ascii) True PrevClick apolloShow =
        Some (apolloShow\<lparr>active := 2,
                effects := effects apolloShow
                  @ [SinkCancel, SinkSpeak (narration (moon_scenes ! 2)) en_US]\<rparr>)"
    using conjunct1 [OF conjunct2 [OF big]] by (simp add: v speak_def length_moon_scenes)
  have "\<exists>s'. run (localProvider toLowerCase_ascii) True (replicate 7 NextClick) apolloShow = Some s'
                \<and> active s' = int 7 mod int (length (scenes apolloShow))"
    using conjunct1 [OF conjunct2 [OF conjunct2 [OF big]]] v(1) by blast
  then have m: "\<exists>s'. run (localProvider toLowerCase_ascii) True (replicate 7 NextClick) apolloShow = Some s' \<and> active s' = 1"
    by (simp add: v length_moon_scenes)
  have b: "scenes ?one \<noteq> []" "0 \<le> active ?one" "active ?one < int (length (scenes ?one))"
    by (simp_all add: apolloShow_def)
  have l: "length (scenes ?one) = 1"
    by simp
  have "step (localProvider toLowerCase_ascii) True NextClick ?one =
            Some (?one\<lparr>active := active ?one,
                    effects := effects ?one
                      @ (if narrationOn ?one \<and> True
                         then [SinkCancel, SinkSpeak (narration (scenes ?one ! 0)) (localeTag ?one)]
                         else [])\<rparr>)"
    using conjunct2 [OF conjunct2 [OF conjunct2 [OF C2_next_previous_wrap [OF b, of "localProvider toLowerCase_ascii" True 0]]]] l
    by blast
  then have o: "step (localProvider toLowerCase_ascii) True NextClick ?one =
        Some (apolloShow\<lparr>scenes := [moon_scenes ! 0],
                effects := effects apolloShow @ [SinkCancel, SinkSpeak (narration (moon_scenes ! 0)) en_US]\<rparr>)"
    by (simp add: apolloShow_def)
  show ?thesis
    using a(1) v(1,2) n1 p1 m l o by blast
qed

section \<open>The quality setting\<close>

lemma render_quality:
  "render (s\<lparr>quality := q\<rparr>) (s'\<lparr>quality := q'\<rparr>) = (render s s')\<lparr>quality := q'\<rparr>"
  by (simp add: render_def autoplayDeps_def armInterval_def)

lemma startShow_quality:
  "startShow provide synth evtName (s\<lparr>quality := q\<rparr>) = (startShow provide synth evtName s)\<lparr>quality := q\<rparr>"
  by (simp add: startShow_def showTopic_def Let_def split: option.splits)

lemma onClick_next_quality:
  "onClick_next synth (s\<lparr>quality := q\<rparr>) = (onClick_next synth s)\<lparr>quality := q\<rparr>"
  by (simp add: onClick_next_def Let_def)

lemma onClick_previous_quality:
  "onClick_previous synth (s\<lparr>quality := q\<rparr>) = (onClick_previous synth s)\<lparr>quality := q\<rparr>"
  by (simp add: onClick_previous_def Let_def)

lemma interval_callback_quality:
  "(interval_callback synth iv (s\<lparr>quality := q\<rparr>))\<lparr>timer := T\<rparr>
     = ((interval_callback synth iv s)\<lparr>timer := T\<rparr>)\<lparr>quality := q\<rparr>"
  by (simp add: interval_callback_def Let_def)

lemma elapse_quality:
  "elapse synth d (s\<lparr>quality := q\<rparr>) = (elapse synth d s)\<lparr>quality := q\<rparr>"
proof (induction synth d s rule: elapse.induct)
  case (1 synth d s)
  show ?case
  proof (cases "timer s")
    case None
    then show ?thesis by (simp add: elapse_idle)
  next
    case (Some iv)
    then have t: "timer (s\<lparr>quality := q\<rparr>) = Some iv" by simp
    show ?thesis
    proof (cases "0 < remaining iv \<and> remaining iv \<le> d")
      case True
      then have f: "0 < remaining iv" "remaining iv \<le> d" by simp_all
      have "elapse synth d (s\<lparr>quality := q\<rparr>) =
              elapse synth (d - remaining iv)
                ((interval_callback synth iv (s\<lparr>quality := q\<rparr>))\<lparr>timer := Some (iv\<lparr>remaining := 6800\<rparr>)\<rparr>)"
        by (rule elapse_fire [OF t f])
      also have "\<dots> = elapse synth (d - remaining iv)
                (((interval_callback synth iv s)\<lparr>timer := Some (iv\<lparr>remaining := 6800\<rparr>)\<rparr>)\<lparr>quality := q\<rparr>)"
        by (simp only: interval_callback_quality)
      also have "\<dots> = (elapse synth (d - remaining iv)
                ((interval_callback synth iv s)\<lparr>timer := Some (iv\<lparr>remaining := 6800\<rparr>)\<rparr>))\<lparr>quality := q\<rparr>"
        by (rule "1.IH" [OF Some True])
      also have "\<dots> = (elapse synth d s)\<lparr>quality := q\<rparr>"
        by (simp only: elapse_fire [OF Some f])
      finally show ?thesis .
    next
      case False
      then show ?thesis
        by (simp only: elapse_wait [OF Some False] elapse_wait [OF t False]) simp
    qed
  qed
qed

lemma quality_update_last:
  "s\<lparr>quality := q, eventName := v\<rparr> = s\<lparr>eventName := v, quality := q\<rparr>"
  "s\<lparr>quality := q, autoplay := b\<rparr> = s\<lparr>autoplay := b, quality := q\<rparr>"
  "s\<lparr>quality := q, narrationOn := b\<rparr> = s\<lparr>narrationOn := b, quality := q\<rparr>"
  "s\<lparr>quality := q, localeTag := l\<rparr> = s\<lparr>localeTag := l, quality := q\<rparr>"
  "s\<lparr>quality := q, playing := b\<rparr> = s\<lparr>playing := b, quality := q\<rparr>"
  "s\<lparr>quality := q, active := i\<rparr> = s\<lparr>active := i, quality := q\<rparr>"
  by (cases s; simp)+

lemma step_quality:
  assumes "\<And>a. e \<noteq> QualityChange a"
  shows "step provide synth e (s\<lparr>quality := q\<rparr>)
           = map_option (\<lambda>s'. s'\<lparr>quality := q\<rparr>) (step provide synth e s)"
proof (cases e)
  case (QualityChange a)
  with assms [of a] show ?thesis by simp
next
  case BeginClick
  then show ?thesis
    using render_quality [where s = s and q = q and s' = "startShow provide synth None s" and q' = q]
    by (simp add: startShow_quality)
next
  case (SuggestedClick x)
  have "s\<lparr>quality := q, eventName := x\<rparr> = s\<lparr>eventName := x, quality := q\<rparr>"
    by (rule quality_update_last)
  then have "startShow provide synth (Some x) (s\<lparr>quality := q, eventName := x\<rparr>)
      = (startShow provide synth (Some x) (s\<lparr>eventName := x\<rparr>))\<lparr>quality := q\<rparr>"
    by (simp only: startShow_quality)
  then show ?thesis
    using SuggestedClick render_quality [where s = s and q = q and s' = "startShow provide synth (Some x) (s\<lparr>eventName := x\<rparr>)" and q' = q]
    by simp
next
  case PrevClick
  then show ?thesis
    using render_quality [where s = s and q = q and s' = "onClick_previous synth s" and q' = q]
    by (simp add: onClick_previous_quality)
next
  case NextClick
  then show ?thesis
    using render_quality [where s = s and q = q and s' = "onClick_next synth s" and q' = q]
    by (simp add: onClick_next_quality)
next
  case (Elapse d)
  then show ?thesis by (simp add: elapse_quality)
next
  case (InputChange v)
  then show ?thesis
    using render_quality [where s = s and q = q and s' = "s\<lparr>eventName := v\<rparr>" and q' = q] 
    by (simp add: quality_update_last)
next
  case (AutoplayChange b)
  then show ?thesis
    using render_quality [where s = s and q = q and s' = "s\<lparr>autoplay := b\<rparr>" and q' = q] 
    by (simp add: quality_update_last)
next
  case (NarrationChange b)
  then show ?thesis
    using render_quality [where s = s and q = q and s' = "s\<lparr>narrationOn := b\<rparr>" and q' = q] 
    by (simp add: quality_update_last)
next
  case (LocaleChange l)
  then show ?thesis
    using render_quality [where s = s and q = q and s' = "s\<lparr>localeTag := l\<rparr>" and q' = q] 
    by (simp add: quality_update_last)
next
  case PlayPauseClick
  then show ?thesis
    using render_quality [where s = s and q = q and s' = "s\<lparr>playing := \<not> playing s\<rparr>" and q' = q] 
    by (simp add: quality_update_last)
next
  case (SeekChange v)
  then show ?thesis
    using render_quality [where s = s and q = q and s' = "s\<lparr>active := v\<rparr>" and q' = q]
    by (auto simp: quality_update_last)
qed

lemma step_sameButQuality:
  assumes "sameButQuality s t" and "eventsAgree e e'"
  shows "rel_option sameButQuality (step provide synth e s) (step provide synth e' t)"
proof -
  obtain qt where t: "t = s\<lparr>quality := qt\<rparr>"
    using assms(1) by (auto simp: sameButQuality_def)
  show ?thesis
  proof (cases "\<exists>a. e = QualityChange a")
    case True
    then obtain a where a: "e = QualityChange a" by blast
    with assms(2) obtain b where b: "e' = QualityChange b" "a = b \<or> (a \<le> 2 \<and> b \<le> 2)"
      by (cases e') auto
    have "render (s\<lparr>quality := qt\<rparr>) (s\<lparr>quality := b\<rparr>) = s\<lparr>quality := b\<rparr>"
      using render_quality [where s = s and q = qt and s' = s and q' = b] by simp
    moreover have "render s (s\<lparr>quality := a\<rparr>) = s\<lparr>quality := a\<rparr>"
      by (simp add: render_def autoplayDeps_def)
    ultimately show ?thesis
      using a b by (auto simp: sameButQuality_def t)
  next
    case False
    then have ne: "\<And>a. e \<noteq> QualityChange a" by blast
    with assms(2) have same: "e' = e"
      by (cases e; cases e') auto
    have "step provide synth e t = map_option (\<lambda>s'. s'\<lparr>quality := qt\<rparr>) (step provide synth e s)"
      unfolding t by (rule step_quality [OF ne])
    then show ?thesis
      using same by (cases "step provide synth e s") (simp_all add: sameButQuality_def)
  qed
qed

lemma run_sameButQuality:
  "list_all2 eventsAgree es es' \<Longrightarrow> sameButQuality s t
   \<Longrightarrow> rel_option sameButQuality (run provide synth es s) (run provide synth es' t)"
proof (induction es es' arbitrary: s t rule: list_all2_induct)
  case Nil
  then show ?case by simp
next
  case (Cons e es e' es')
  from step_sameButQuality [OF Cons.prems Cons.hyps(1), of provide synth]
  show ?case
  proof (cases rule: option.rel_cases)
    case None
    then show ?thesis by simp
  next
    case (Some s1 t1)
    then show ?thesis
      using Cons.IH [of s1 t1] by simp
  qed
qed


lemma sameButQuality_fields:
  assumes "sameButQuality s t"
  shows "scenes s = scenes t \<and> active s = active t \<and> playing s = playing t
         \<and> autoplay s = autoplay t \<and> narrationOn s = narrationOn t
         \<and> timer s = timer t \<and> effects s = effects t
         \<and> renderFrame s = renderFrame t"
proof -
  obtain qt where "t = s\<lparr>quality := qt\<rparr>"
    using assms by (auto simp: sameButQuality_def)
  then show ?thesis by (simp add: renderFrame_def currentScene_def fun_eq_iff)
qed

text \<open>
  C8. Two runs of the machine from states that differ at most in \<open>quality\<close>, under the same
  operations and the same passing of time, where only the values given to the quality
  slider may differ: either both runs are impossible at the same point, or both end in
  states that again differ at most in \<open>quality\<close>. In particular \<open>scenes\<close>, \<open>active\<close>,
  \<open>playing\<close>, \<open>autoplay\<close>, the narration flag, the armed interval and the whole trace of
  effects, with every call of the narration sink, are the same, and so is the camera
  frame computed from the state. Since this holds for every prefix of the operations,
  the two evolutions agree step by step.
\<close>

theorem C8_quality_noninterference:
  assumes "sameButQuality s t" and "list_all2 eventsAgree es es'"
  shows "rel_option
           (\<lambda>s' t'. sameButQuality s' t' \<and> scenes s' = scenes t' \<and> active s' = active t'
              \<and> playing s' = playing t' \<and> autoplay s' = autoplay t'
              \<and> narrationOn s' = narrationOn t' \<and> timer s' = timer t'
              \<and> effects s' = effects t' \<and> renderFrame s' = renderFrame t')
           (run provide synth es s) (run provide synth es' t)"
proof -
  have "rel_option sameButQuality (run provide synth es s) (run provide synth es' t)"
    using run_sameButQuality [OF assms(2,1)] .
  then show ?thesis
    by (rule option.rel_mono_strong) (simp add: sameButQuality_fields)
qed

lemma run_quality_pause:
  "q \<le> 2 \<Longrightarrow> run provide synth [QualityChange q, PlayPauseClick] (apolloShow\<lparr>quality := q0\<rparr>)
     = Some (apolloShow\<lparr>playing := False, quality := q, timer := None\<rparr>)"
  by (simp add: apolloShow_def length_moon_scenes render_def autoplayDeps_def armInterval_def)

theorem C8_quality_noninterference_witness:
  "sameButQuality (apolloShow\<lparr>quality := 1\<rparr>) (apolloShow\<lparr>quality := 2\<rparr>)
   \<and> list_all2 eventsAgree [QualityChange 0, PlayPauseClick] [QualityChange 2, PlayPauseClick]
   \<and> run (localProvider toLowerCase_ascii) True [QualityChange 0, PlayPauseClick] (apolloShow\<lparr>quality := 1\<rparr>)
       = Some (apolloShow\<lparr>playing := False, quality := 0, timer := None\<rparr>)
   \<and> run (localProvider toLowerCase_ascii) True [QualityChange 2, PlayPauseClick] (apolloShow\<lparr>quality := 2\<rparr>)
       = Some (apolloShow\<lparr>playing := False, quality := 2, timer := None\<rparr>)
   \<and> rel_option
         (\<lambda>s' t'. sameButQuality s' t' \<and> scenes s' = scenes t' \<and> active s' = active t'
            \<and> playing s' = playing t' \<and> autoplay s' = autoplay t'
            \<and> narrationOn s' = narrationOn t' \<and> timer s' = timer t'
            \<and> effects s' = effects t' \<and> renderFrame s' = renderFrame t')
         (run (localProvider toLowerCase_ascii) True [QualityChange 0, PlayPauseClick] (apolloShow\<lparr>quality := 1\<rparr>))
         (run (localProvider toLowerCase_ascii) True [QualityChange 2, PlayPauseClick] (apolloShow\<lparr>quality := 2\<rparr>))"
proof -
  have a: "sameButQuality (apolloShow\<lparr>quality := 1\<rparr>) (apolloShow\<lparr>quality := 2\<rparr>)"
    by (simp add: sameButQuality_def)
  have b: "list_all2 eventsAgree [QualityChange 0, PlayPauseClick] [QualityChange 2, PlayPauseClick]"
    by simp
  have c: "run (localProvider toLowerCase_ascii) True [QualityChange 0, PlayPauseClick] (apolloShow\<lparr>quality := 1\<rparr>)
       = Some (apolloShow\<lparr>playing := False, quality := 0, timer := None\<rparr>)"
    by (rule run_quality_pause) simp
  have d: "run (localProvider toLowerCase_ascii) True [QualityChange 2, PlayPauseClick] (apolloShow\<lparr>quality := 2\<rparr>)
       = Some (apolloShow\<lparr>playing := False, quality := 2, timer := None\<rparr>)"
    by (rule run_quality_pause) simp
  show ?thesis
    using a b c d C8_quality_noninterference [OF a b, of "localProvider toLowerCase_ascii" True]
    by blast
qed

section \<open>Switching narration off\<close>

lemma speak_disabled: "speak synth u False lang = []"
  by (simp add: speak_def)

lemma elapse_silent:
  "(\<And>iv. timer s = Some iv \<Longrightarrow> \<not> cb_narration iv) \<Longrightarrow> effects (elapse synth d s) = effects s"
proof (induction synth d s rule: elapse.induct)
  case (1 synth d s)
  show ?case
  proof (cases "timer s")
    case None
    then show ?thesis by (simp add: elapse_idle)
  next
    case (Some iv)
    then have off: "\<not> cb_narration iv" by (rule "1.prems")
    show ?thesis
    proof (cases "0 < remaining iv \<and> remaining iv \<le> d")
      case True
      let ?s1 = "(interval_callback synth iv s)\<lparr>timer := Some (iv\<lparr>remaining := 6800\<rparr>)\<rparr>"
      have "effects (elapse synth (d - remaining iv) ?s1) = effects ?s1"
        using off by (intro "1.IH" [OF Some True]) auto
      moreover have "effects ?s1 = effects s"
        using off by (simp add: interval_callback_def Let_def speak_disabled)
      moreover have "elapse synth d s = elapse synth (d - remaining iv) ?s1"
        using True by (intro elapse_fire [OF Some]) simp_all
      ultimately show ?thesis by simp
    next
      case False
      then show ?thesis by (simp add: elapse_wait [OF Some False])
    qed
  qed
qed

lemma startShow_effects:
  "effects (startShow provide synth evtName s) = effects s @ newEffects s (startShow provide synth evtName s)
   \<and> (\<not> narrationOn s \<longrightarrow> \<not> list_ex isSinkCall (newEffects s (startShow provide synth evtName s)))"
  by (simp add: startShow_def Let_def newEffects_def speak_disabled split: option.splits)

lemma step_silent:
  assumes "timerCoherent s" and "\<not> narrationOn s" and "step provide synth e s = Some s'"
  shows "effects s' = effects s @ newEffects s s' \<and> \<not> list_ex isSinkCall (newEffects s s')"
proof (cases e)
  case BeginClick
  then show ?thesis
    using assms(2,3) startShow_effects [of provide synth None s] by (auto simp: newEffects_def)
next
  case (SuggestedClick x)
  then show ?thesis
    using assms(2,3) startShow_effects [of provide synth "Some x" "s\<lparr>eventName := x\<rparr>"]
    by (auto simp: newEffects_def split: if_splits)
next
  case PrevClick
  then show ?thesis
    using assms(2,3) by (auto simp: newEffects_def onClick_previous_def Let_def speak_disabled split: if_splits)
next
  case NextClick
  then show ?thesis
    using assms(2,3) by (auto simp: newEffects_def onClick_next_def Let_def speak_disabled split: if_splits)
next
  case (Elapse d)
  have "\<not> cb_narration iv" if "timer s = Some iv" for iv
    using assms(1,2) that by (simp add: timerCoherent_def)
  then have "effects (elapse synth d s) = effects s"
    by (rule elapse_silent)
  then show ?thesis
    using Elapse assms(3) by (auto simp: newEffects_def)
qed (use assms(3) in \<open>auto simp: newEffects_def split: if_splits\<close>)

lemma narration_off_apollo:
  "step provide synth (NarrationChange False) apolloShow
     = Some (apolloShow\<lparr>narrationOn := False,
               timer := Some \<lparr>remaining = 6800, cb_scenes = moon_scenes, cb_narration = False,
                              cb_locale = en_US\<rparr>\<rparr>)"
  by (simp add: apolloShow_def render_def autoplayDeps_def armInterval_def length_moon_scenes)

text \<open>
  C4 as stated fails. In the running Apollo show the last effect is the utterance for
  scene 0. Unticking the narration box there adds nothing to the trace: the cancel path of
  the sink is taken zero times, not once.
\<close>

theorem C4_counterexample:
  "reachable (localProvider toLowerCase_ascii) True apolloShow
   \<and> last (effects apolloShow) = SinkSpeak (narration (moon_scenes ! 0)) en_US
   \<and> step (localProvider toLowerCase_ascii) True (NarrationChange False) apolloShow
       = Some (apolloShow\<lparr>narrationOn := False,
                 timer := Some \<lparr>remaining = 6800, cb_scenes = moon_scenes, cb_narration = False,
                                cb_locale = en_US\<rparr>\<rparr>)
   \<and> count_list
         (newEffects apolloShow
            (apolloShow\<lparr>narrationOn := False,
               timer := Some \<lparr>remaining = 6800, cb_scenes = moon_scenes, cb_narration = False,
                              cb_locale = en_US\<rparr>\<rparr>))
         SinkCancel = 0"
proof -
  have "last (effects apolloShow) = SinkSpeak (narration (moon_scenes ! 0)) en_US"
    by (simp add: apolloShow_def)
  moreover have "count_list
         (newEffects apolloShow
            (apolloShow\<lparr>narrationOn := False,
               timer := Some \<lparr>remaining = 6800, cb_scenes = moon_scenes, cb_narration = False,
                              cb_locale = en_US\<rparr>\<rparr>))
         SinkCancel = 0"
    by (simp add: newEffects_def)
  ultimately show ?thesis
    using reachable_apolloShow narration_off_apollo by blast
qed

text \<open>
  C4 (as the code has it). Unticking the narration box only updates the flag, and the
  render that follows re-arms the autoplay interval; it adds nothing to the trace of
  effects, so the narration sink is not called and an utterance in flight is not
  cancelled. While the flag is off, no operation and no firing of the timer calls the
  sink: what a step adds to the trace contains neither a cancel nor a speak. This covers
  ticking the box again, which by itself does not speak either.
\<close>

theorem C4_narration_off_is_silent:
  "step provide synth (NarrationChange False) s = Some (render s (s\<lparr>narrationOn := False\<rparr>))
   \<and> effects (render s (s\<lparr>narrationOn := False\<rparr>)) = effects s
   \<and> (reachable provide synth s \<and> \<not> narrationOn s \<and> step provide synth e s = Some s' \<longrightarrow>
        effects s' = effects s @ newEffects s s' \<and> \<not> list_ex isSinkCall (newEffects s s'))"
proof -
  have "effects s' = effects s @ newEffects s s' \<and> \<not> list_ex isSinkCall (newEffects s s')"
    if "reachable provide synth s" and "\<not> narrationOn s" and "step provide synth e s = Some s'"
    using reachable_invariant [OF that(1)] step_silent [OF _ that(2,3)] by blast
  then show ?thesis by simp
qed


theorem C4_narration_off_is_silent_witness:
  "step (localProvider toLowerCase_ascii) True (NarrationChange False) apolloShow
     = Some (apolloShow\<lparr>narrationOn := False,
               timer := Some \<lparr>remaining = 6800, cb_scenes = moon_scenes, cb_narration = False,
                              cb_locale = en_US\<rparr>\<rparr>)
   \<and> reachable (localProvider toLowerCase_ascii) True
         (apolloShow\<lparr>narrationOn := False,
            timer := Some \<lparr>remaining = 6800, cb_scenes = moon_scenes, cb_narration = False,
                           cb_locale = en_US\<rparr>\<rparr>)
   \<and> \<not> narrationOn
           (apolloShow\<lparr>narrationOn := False,
              timer := Some \<lparr>remaining = 6800, cb_scenes = moon_scenes, cb_narration = False,
                             cb_locale = en_US\<rparr>\<rparr>)
   \<and> step (localProvider toLowerCase_ascii) True (Elapse 6800)
         (apolloShow\<lparr>narrationOn := False,
            timer := Some \<lparr>remaining = 6800, cb_scenes = moon_scenes, cb_narration = False,
                           cb_locale = en_US\<rparr>\<rparr>)
       = Some (apolloShow\<lparr>active := 1, narrationOn := False,
                 timer := Some \<lparr>remaining = 6800, cb_scenes = moon_scenes, cb_narration = False,
                                cb_locale = en_US\<rparr>\<rparr>)
   \<and> \<not> list_ex isSinkCall
         (newEffects
            (apolloShow\<lparr>narrationOn := False,
               timer := Some \<lparr>remaining = 6800, cb_scenes = moon_scenes, cb_narration = False,
                              cb_locale = en_US\<rparr>\<rparr>)
            (apolloShow\<lparr>active := 1, narrationOn := False,
               timer := Some \<lparr>remaining = 6800, cb_scenes = moon_scenes, cb_narration = False,
                              cb_locale = en_US\<rparr>\<rparr>))"
proof -
  let ?P = "localProvider toLowerCase_ascii"
  let ?iv = "\<lparr>remaining = 6800, cb_scenes = moon_scenes, cb_narration = False, cb_locale = en_US\<rparr>"
  let ?quiet = "apolloShow\<lparr>narrationOn := False, timer := Some ?iv\<rparr>"
  let ?after = "apolloShow\<lparr>active := 1, narrationOn := False, timer := Some ?iv\<rparr>"
  have off: "step ?P True (NarrationChange False) apolloShow = Some ?quiet"
    by (rule narration_off_apollo)
  then have r: "reachable ?P True ?quiet"
    using reachable_apolloShow reachable_step by blast
  have q: "\<not> narrationOn ?quiet"
    by simp
  have t: "timer ?quiet = Some ?iv"
    by simp
  have "elapse True 6800 ?quiet = elapse True (6800 - remaining ?iv)
          ((interval_callback True ?iv ?quiet)\<lparr>timer := Some (?iv\<lparr>remaining := 6800\<rparr>)\<rparr>)"
    by (rule elapse_fire [OF t]) simp_all
  also have "(interval_callback True ?iv ?quiet)\<lparr>timer := Some (?iv\<lparr>remaining := 6800\<rparr>)\<rparr> = ?after"
    by (simp add: interval_callback_def Let_def js_rem_def apolloShow_def length_moon_scenes
        speak_disabled)
  also have "elapse True (6800 - remaining ?iv) ?after = ?after"
    using elapse_wait [of ?after ?iv 0 True] by simp
  finally have e: "step ?P True (Elapse 6800) ?quiet = Some ?after"
    by simp
  have "\<not> list_ex isSinkCall (newEffects ?quiet ?after)"
    using C4_narration_off_is_silent [of ?P True ?quiet "Elapse 6800" ?after] r q e
    by blast
  then show ?thesis
    using off r q e by blast
qed

section \<open>Camera styles\<close>

lemma CameraRig_default:
  assumes "mode \<noteq> js ''dolly-in''" and "mode \<noteq> js ''crane-up''" and "mode \<noteq> js ''handheld''"
    and "mode \<noteq> js ''locked-off''"
  shows "CameraRig mode t rnd cam =
           cam\<lparr>position := (sin (t * 0.1) * 6, 2, cos (t * 0.1) * 6),
               orientation := orientation cam @ [LookAt 0 1.2 0]\<rparr>"
  using assms unfolding CameraRig_def Let_def by simp

lemma CameraRig_orbit_slow:
  "CameraRig (js ''orbit-slow'') t rnd cam =
     cam\<lparr>position := (sin (t * 0.1) * 6, 2, cos (t * 0.1) * 6),
         orientation := orientation cam @ [LookAt 0 1.2 0]\<rparr>"
  by (rule CameraRig_default) (simp_all add: js_def)

lemma CameraRig_push_pull:
  "CameraRig (js ''push-pull'') t rnd cam =
     cam\<lparr>position := (sin (t * 0.1) * 6, 2, cos (t * 0.1) * 6),
         orientation := orientation cam @ [LookAt 0 1.2 0]\<rparr>"
  by (rule CameraRig_default) (simp_all add: js_def)

lemma CameraRig_dolly_in:
  "CameraRig (js ''dolly-in'') t rnd cam =
     cam\<lparr>position := lerp (position cam) (0, 1.5, 4 + cos (t * 0.25) * 0.4) 0.01\<rparr>"
  unfolding CameraRig_def Let_def by simp

lemma CameraRig_unknown:
  assumes "mode \<notin> set CameraStyle_values"
  shows "CameraRig mode t rnd cam = CameraRig (js ''orbit-slow'') t rnd cam"
proof -
  have "mode \<noteq> js ''dolly-in''" "mode \<noteq> js ''crane-up''" "mode \<noteq> js ''handheld''"
    "mode \<noteq> js ''locked-off''"
    using assms by (auto simp: CameraStyle_values_def)
  then have "CameraRig mode t rnd cam =
           cam\<lparr>position := (sin (t * 0.1) * 6, 2, cos (t * 0.1) * 6),
               orientation := orientation cam @ [LookAt 0 1.2 0]\<rparr>"
    by (rule CameraRig_default)
  then show ?thesis
    by (simp only: CameraRig_orbit_slow)
qed

text \<open>
  C9 as stated fails. From the camera the canvas starts with, at time 0, the push-pull
  frame puts the camera on the orbit, at \<open>(0, 2, 6)\<close> looking at \<open>(0, 1.2, 0)\<close>. The
  dolly-in formula of the specification moves it a hundredth of the way to its target, to
  \<open>(0, 1.995, 7.964)\<close>, and the mirrored formula to \<open>(0, 1.995, 7.956)\<close>; neither looks
  anywhere. The dolly-in frame of the code is the first of these.
\<close>

theorem C9_counterexample:
  "CameraRig (js ''push-pull'') 0 (0, 0, 0) canvasCamera
     = \<lparr>position = (0, 2, 6), orientation = [LookAt 0 1.2 0]\<rparr>
   \<and> spec_dollyFamily 1 0 canvasCamera = \<lparr>position = (0, 1.995, 7.964), orientation = []\<rparr>
   \<and> spec_dollyFamily (- 1) 0 canvasCamera = \<lparr>position = (0, 1.995, 7.956), orientation = []\<rparr>
   \<and> CameraRig (js ''dolly-in'') 0 (0, 0, 0) canvasCamera = spec_dollyFamily 1 0 canvasCamera
   \<and> CameraRig (js ''push-pull'') 0 (0, 0, 0) canvasCamera \<noteq> spec_dollyFamily 1 0 canvasCamera
   \<and> CameraRig (js ''push-pull'') 0 (0, 0, 0) canvasCamera \<noteq> spec_dollyFamily (- 1) 0 canvasCamera"
proof -
  have a: "CameraRig (js ''push-pull'') 0 (0, 0, 0) canvasCamera
     = \<lparr>position = (0, 2, 6), orientation = [LookAt 0 1.2 0]\<rparr>"
    by (simp add: CameraRig_push_pull canvasCamera_def)
  have b: "spec_dollyFamily 1 0 canvasCamera = \<lparr>position = (0, 1.995, 7.964), orientation = []\<rparr>"
    by (simp add: spec_dollyFamily_def canvasCamera_def)
  have c: "spec_dollyFamily (- 1) 0 canvasCamera = \<lparr>position = (0, 1.995, 7.956), orientation = []\<rparr>"
    by (simp add: spec_dollyFamily_def canvasCamera_def)
  have d: "CameraRig (js ''dolly-in'') 0 (0, 0, 0) canvasCamera = spec_dollyFamily 1 0 canvasCamera"
    by (simp add: CameraRig_dolly_in spec_dollyFamily_def canvasCamera_def)
  show ?thesis
    unfolding a b c d by simp
qed

text \<open>
  C9 (as the code has it). The \<open>switch\<close> of the camera rig has no case for push-pull, so
  that style takes the \<open>default\<close> branch, whose body is the one of orbit-slow. For every
  elapsed time, every random draw and every previous pose, the push-pull frame is the
  orbit-slow frame: the position is set, without smoothing and whatever it was, to the
  circle of radius 6 at height 2, and the camera looks at \<open>(0, 1.2, 0)\<close>. The dolly-in
  frame is the smoothing step of the specification.
\<close>

theorem C9_push_pull_is_orbit_slow:
  "CameraRig (js ''push-pull'') t rnd cam = CameraRig (js ''orbit-slow'') t rnd cam
   \<and> CameraRig (js ''push-pull'') t rnd cam =
       cam\<lparr>position := (sin (t * 0.1) * 6, 2, cos (t * 0.1) * 6),
           orientation := orientation cam @ [LookAt 0 1.2 0]\<rparr>
   \<and> CameraRig (js ''dolly-in'') t rnd cam = spec_dollyFamily 1 t cam"
  by (simp add: CameraRig_push_pull CameraRig_orbit_slow CameraRig_dolly_in spec_dollyFamily_def
      mult.commute)


lemma trim_warp: "trim (js ''Warp'') = js ''Warp''"
  by (simp add: trim_def js_def isWhiteSpace_def)

lemma warp_not_blank: "js ''Warp'' \<noteq> []"
  by (simp add: js_def)

lemma generate_warp: "generateScenesLocally toLowerCase_ascii (js ''Warp'') = generic_scenes (js ''Warp'')"
  by (simp add: generateScenesLocally_def js_def toLowerCase_ascii_def trim_def isWhiteSpace_def)

lemma styles_known:
  "list_all (\<lambda>sc. cameraStyle sc \<in> set CameraStyle_values) (generateScenesLocally lower n)"
  using generate_cases [of lower n]
  by (auto simp: moon_scenes_def egypt_scenes_def wwii_scenes_def generic_scenes_def
      CameraStyle_values_def)

lemma CameraRig_no_case:
  assumes "mode \<noteq> js ''dolly-in''" and "mode \<noteq> js ''crane-up''" and "mode \<noteq> js ''handheld''"
    and "mode \<noteq> js ''locked-off''"
  shows "CameraRig mode t rnd cam = CameraRig (js ''orbit-slow'') t rnd cam"
  by (simp only: CameraRig_default [OF assms] CameraRig_orbit_slow)

lemma warp_speed_unknown: "js ''warp-speed'' \<notin> set CameraStyle_values"
  by (simp add: CameraStyle_values_def js_def)

text \<open>
  C3 as stated fails in its last part: the camera rig does have a silent default branch.
  Its \<open>switch\<close> ends in \<open>default\<close>, which shares the body of orbit-slow. The style
  \<open>warp-speed\<close> is none of the six declared ones, and the rig answers it, at time 0 from
  the camera the canvas starts with, with the orbit-slow frame: position \<open>(0, 2, 6)\<close>,
  looking at \<open>(0, 1.2, 0)\<close>. The declared style push-pull, which has no case either, gets
  the same frame through the same branch.
\<close>

theorem C3_counterexample:
  "js ''warp-speed'' \<notin> set CameraStyle_values
   \<and> CameraRig (js ''warp-speed'') 0 (0, 0, 0) canvasCamera
       = \<lparr>position = (0, 2, 6), orientation = [LookAt 0 1.2 0]\<rparr>
   \<and> CameraRig (js ''warp-speed'') 0 (0, 0, 0) canvasCamera
       = CameraRig (js ''orbit-slow'') 0 (0, 0, 0) canvasCamera
   \<and> CameraRig (js ''push-pull'') 0 (0, 0, 0) canvasCamera
       = \<lparr>position = (0, 2, 6), orientation = [LookAt 0 1.2 0]\<rparr>"
proof -
  have w: "CameraRig (js ''warp-speed'') 0 (0, 0, 0) canvasCamera
       = CameraRig (js ''orbit-slow'') 0 (0, 0, 0) canvasCamera"
    using warp_speed_unknown by (rule CameraRig_unknown)
  have o: "CameraRig (js ''orbit-slow'') 0 (0, 0, 0) canvasCamera
       = \<lparr>position = (0, 2, 6), orientation = [LookAt 0 1.2 0]\<rparr>"
    by (simp add: CameraRig_orbit_slow canvasCamera_def)
  have p: "CameraRig (js ''push-pull'') 0 (0, 0, 0) canvasCamera
       = \<lparr>position = (0, 2, 6), orientation = [LookAt 0 1.2 0]\<rparr>"
    by (simp add: CameraRig_push_pull canvasCamera_def)
  show ?thesis
    using warp_speed_unknown w o p by simp
qed

text \<open>
  C3 (as the code has it). A sequence with a scene of unknown camera style never reaches
  \<open>startShow\<close>: it takes its scenes from \<open>generateScenesLocally\<close>, and every scene of that
  function has one of the six declared styles, whatever the event name. \<open>startShow\<close> has
  no check of the styles and no failure for them: with a topic that is not empty after
  trimming it installs the provider's scenes, sets \<open>active\<close> to 0 and reports no failure.
  The camera rig has a silent default branch: a style with no case of its own, which is
  every value outside the six and also the declared push-pull, gets the frame of
  orbit-slow.
\<close>

theorem C3_no_style_check_and_default_branch:
  "list_all (\<lambda>sc. cameraStyle sc \<in> set CameraStyle_values) (generateScenesLocally lower topic)
   \<and> (showTopic evtName s \<noteq> [] \<longrightarrow>
        scenes (startShow (localProvider lower) synth evtName s)
          = generateScenesLocally lower (showTopic evtName s)
        \<and> active (startShow (localProvider lower) synth evtName s) = 0
        \<and> \<not> list_ex isFailure (newEffects s (startShow (localProvider lower) synth evtName s)))
   \<and> (mode \<notin> set CameraStyle_values \<longrightarrow>
        CameraRig mode t rnd cam = CameraRig (js ''orbit-slow'') t rnd cam)
   \<and> (mode \<noteq> js ''dolly-in'' \<and> mode \<noteq> js ''crane-up'' \<and> mode \<noteq> js ''handheld''
        \<and> mode \<noteq> js ''locked-off'' \<longrightarrow>
        CameraRig mode t rnd cam = CameraRig (js ''orbit-slow'') t rnd cam)"
proof -
  have start: "scenes (startShow (localProvider lower) synth evtName s)
          = generateScenesLocally lower (showTopic evtName s)
        \<and> active (startShow (localProvider lower) synth evtName s) = 0
        \<and> \<not> list_ex isFailure (newEffects s (startShow (localProvider lower) synth evtName s))"
    if "showTopic evtName s \<noteq> []"
    using startShow_success [where provide = "localProvider lower" and synth = synth
        and batch = "generateScenesLocally lower (showTopic evtName s)", OF that]
    by (simp add: localProvider_def newEffects_def speak_def)
  show ?thesis
    using styles_known [of lower topic] start CameraRig_unknown [of mode t rnd cam]
      CameraRig_no_case [of mode t rnd cam]
    by blast
qed

theorem C3_no_style_check_and_default_branch_witness:
  "list_all (\<lambda>sc. cameraStyle sc \<in> set CameraStyle_values)
     (generateScenesLocally toLowerCase_ascii (js ''Warp''))
   \<and> showTopic (Some (js ''Warp'')) (apolloShow\<lparr>active := 2\<rparr>) \<noteq> []
   \<and> scenes (startShow (localProvider toLowerCase_ascii) True (Some (js ''Warp'')) (apolloShow\<lparr>active := 2\<rparr>))
       = generic_scenes (js ''Warp'')
   \<and> active (startShow (localProvider toLowerCase_ascii) True (Some (js ''Warp'')) (apolloShow\<lparr>active := 2\<rparr>))
       = 0
   \<and> \<not> list_ex isFailure
         (newEffects (apolloShow\<lparr>active := 2\<rparr>)
            (startShow (localProvider toLowerCase_ascii) True (Some (js ''Warp'')) (apolloShow\<lparr>active := 2\<rparr>)))
   \<and> js ''warp-speed'' \<notin> set CameraStyle_values
   \<and> CameraRig (js ''warp-speed'') 0 (0, 0, 0) canvasCamera
       = CameraRig (js ''orbit-slow'') 0 (0, 0, 0) canvasCamera"
proof -
  let ?s = "apolloShow\<lparr>active := 2\<rparr>"
  have a: "showTopic (Some (js ''Warp'')) ?s = js ''Warp''"
    by (simp add: showTopic_def trim_warp)
  then have b: "showTopic (Some (js ''Warp'')) ?s \<noteq> []"
    by (simp add: warp_not_blank)
  note main = C3_no_style_check_and_default_branch [of toLowerCase_ascii "js ''Warp''"
      "Some (js ''Warp'')" ?s True "js ''warp-speed''" 0 "(0, 0, 0)" canvasCamera]
  have 1: "list_all (\<lambda>sc. cameraStyle sc \<in> set CameraStyle_values)
     (generateScenesLocally toLowerCase_ascii (js ''Warp''))"
    using main by blast
  have "scenes (startShow (localProvider toLowerCase_ascii) True (Some (js ''Warp'')) ?s)
          = generateScenesLocally toLowerCase_ascii (showTopic (Some (js ''Warp'')) ?s)"
    and 3: "active (startShow (localProvider toLowerCase_ascii) True (Some (js ''Warp'')) ?s) = 0"
    and 4: "\<not> list_ex isFailure
         (newEffects ?s (startShow (localProvider toLowerCase_ascii) True (Some (js ''Warp'')) ?s))"
    using main b by blast+
  then have 2: "scenes (startShow (localProvider toLowerCase_ascii) True (Some (js ''Warp'')) ?s)
       = generic_scenes (js ''Warp'')"
    by (simp only: a generate_warp)
  have 5: "CameraRig (js ''warp-speed'') 0 (0, 0, 0) canvasCamera
       = CameraRig (js ''orbit-slow'') 0 (0, 0, 0) canvasCamera"
    using main warp_speed_unknown by blast
  show ?thesis
    using 1 b 2 3 4 warp_speed_unknown 5 by blast
qed

end
